theory Spec2Isabelle
  imports Main "HOL-Library.Word"
begin

section \<open>Texts, JSON values and the interpreter's tables\<close>

text \<open>
  A Python \<open>str\<close> is a sequence of Unicode code points; a code point is modelled by its
  number.  \<open>U\<close> turns an ASCII literal into such a text.
\<close>

type_synonym pystr = "nat list"

definition U :: "string \<Rightarrow> pystr" where
  "U s = map of_char s"

text \<open>
  The value \<open>request.get_json()\<close> hands to the handler.  A JSON object is kept as the list
  of its members in document order; a float is kept as the 64 bits of its IEEE double.
\<close>

datatype json =
    JNull
  | JBool bool
  | JInt int
  | JFloat "64 word"
  | JStr pystr
  | JArr "json list"
  | JObj "(pystr \<times> json) list"

text \<open>
  What the source takes from the Python runtime and not from the repository: the Unicode
  character tables behind \<open>str.isdigit\<close> and \<open>int\<close> for code points beyond ASCII, the
  interpreter's limit on the digits of an integer literal (0 for no limit), the text
  \<open>str\<close> gives for floats, lists and dicts, and the text of the exception raised when a
  string cannot be encoded as UTF-8.
\<close>

record pyenv =
  uni_isdigit :: "nat \<Rightarrow> bool"
  uni_decimal :: "nat \<Rightarrow> nat option"
  uni_isspace :: "nat \<Rightarrow> bool"
  int_max_str_digits :: nat
  str_other :: "json \<Rightarrow> pystr"
  encode_error :: "pystr \<Rightarrow> pystr"

text \<open>
  Tables that know no digit and no space beyond ASCII.  They serve to run the model on
  ASCII inputs, where the tables are never consulted.
\<close>

definition ascii_env :: pyenv where
  "ascii_env = \<lparr> uni_isdigit = (\<lambda>c. False), uni_decimal = (\<lambda>c. None),
                 uni_isspace = (\<lambda>c. False), int_max_str_digits = 4300,
                 str_other = (\<lambda>v. []), encode_error = (\<lambda>s. []) \<rparr>"

section \<open>String primitives\<close>

definition is_ascii_digit :: "nat \<Rightarrow> bool" where
  "is_ascii_digit c = (48 \<le> c \<and> c \<le> 57)"

definition is_ascii_letter :: "nat \<Rightarrow> bool" where
  "is_ascii_letter c = ((65 \<le> c \<and> c \<le> 90) \<or> (97 \<le> c \<and> c \<le> 122))"

text \<open>The three character classes of the source's regular expressions.\<close>

definition stream_char :: "nat \<Rightarrow> bool" where
  \<comment> \<open>\<open>[A-Za-z0-9_]\<close>\<close>
  "stream_char c = (is_ascii_letter c \<or> is_ascii_digit c \<or> c = 95)"

definition session_char :: "nat \<Rightarrow> bool" where
  \<comment> \<open>\<open>[0-9\-]\<close>\<close>
  "session_char c = (is_ascii_digit c \<or> c = 45)"

definition filename_char :: "nat \<Rightarrow> bool" where
  \<comment> \<open>\<open>[A-Za-z0-9_\-\.]\<close>\<close>
  "filename_char c = (is_ascii_letter c \<or> is_ascii_digit c \<or> c = 95 \<or> c = 45 \<or> c = 46)"

definition re_sub_not :: "(nat \<Rightarrow> bool) \<Rightarrow> pystr \<Rightarrow> pystr" where
  \<comment> \<open>\<open>re.sub(r'[^...]', '', s)\<close>: delete every character outside the class\<close>
  "re_sub_not cls s = filter cls s"

definition replace_char :: "nat \<Rightarrow> nat \<Rightarrow> pystr \<Rightarrow> pystr" where
  \<comment> \<open>\<open>s.replace(a, b)\<close> for one-character \<open>a\<close> and \<open>b\<close>\<close>
  "replace_char a b s = map (\<lambda>c. if c = a then b else c) s"

definition upper_char :: "nat \<Rightarrow> nat" where
  "upper_char c = (if 97 \<le> c \<and> c \<le> 122 then c - 32 else c)"

definition upper :: "pystr \<Rightarrow> pystr" where
  \<comment> \<open>\<open>s.upper()\<close>; the source calls it only on a text of \<open>[A-Za-z0-9_]\<close>, where it is
      the ASCII case map\<close>
  "upper s = map upper_char s"

fun split_on :: "nat \<Rightarrow> pystr \<Rightarrow> pystr list" where
  \<comment> \<open>\<open>s.split(sep)\<close> for a one-character separator: never an empty list\<close>
  "split_on sep [] = [[]]"
| "split_on sep (c # cs) =
     (if c = sep then [] # split_on sep cs
      else (let r = split_on sep cs in (c # hd r) # tl r))"

definition digit_char :: "pyenv \<Rightarrow> nat \<Rightarrow> bool" where
  "digit_char py c = (if c < 128 then is_ascii_digit c else uni_isdigit py c)"

definition isdigit :: "pyenv \<Rightarrow> pystr \<Rightarrow> bool" where
  \<comment> \<open>\<open>s.isdigit()\<close>: false on the empty text\<close>
  "isdigit py s = (s \<noteq> [] \<and> list_all (digit_char py) s)"

definition last_two :: "pystr \<Rightarrow> pystr" where
  \<comment> \<open>\<open>s[-2:]\<close>: the whole text when it has fewer than two characters\<close>
  "last_two s = drop (length s - 2) s"

section \<open>Filename derivation\<close>

definition ORDINAL :: "(pystr \<times> pystr) list" where
  "ORDINAL = [(U ''1'', U ''1st''), (U ''2'', U ''2nd''), (U ''3'', U ''3rd''),
              (U ''4'', U ''4th'')]"

definition sanitize_stream :: "pystr \<Rightarrow> pystr" where
  "sanitize_stream stream =
     (let s = re_sub_not stream_char (replace_char 32 95 stream)
      in if s \<noteq> [] then upper s else U ''OTHER'')"

definition session_filename_piece :: "pyenv \<Rightarrow> pystr \<Rightarrow> pystr" where
  "session_filename_piece py session =
     (let parts = split_on 45 session
      in if length parts = 2 \<and> isdigit py (parts ! 0) \<and> isdigit py (parts ! 1)
         then (let start = parts ! 0;
                   end = parts ! 1;
                   end_short = last_two end
               in start @ U ''-'' @ end_short)
         else re_sub_not session_char session)"

definition ordinal_of :: "pystr \<Rightarrow> pystr" where
  \<comment> \<open>\<open>ORDINAL.get(year, f"{year}th")\<close>\<close>
  "ordinal_of year = (case map_of ORDINAL year of Some v \<Rightarrow> v | None \<Rightarrow> year @ U ''th'')"

definition make_filename :: "pyenv \<Rightarrow> pystr \<Rightarrow> pystr \<Rightarrow> pystr \<Rightarrow> pystr" where
  "make_filename py stream year session =
     (let s = sanitize_stream stream;
          ordinal = ordinal_of year;
          sess_piece = session_filename_piece py session;
          filename = s @ U ''_'' @ ordinal @ U ''_'' @ sess_piece @ U ''.csv''
      in re_sub_not filename_char filename)"

text \<open>
  The stream component as the specification words it: replace spaces by underscores, strip
  every character that is not an ASCII letter, digit or underscore, uppercase the result,
  and substitute \<open>OTHER\<close> when the result is empty.  The letters, the digits and the
  upper case of a letter are spelled out here, apart from the definitions above.
\<close>

definition spec_kept_chars :: pystr where
  "spec_kept_chars = U ''ABCDEFGHIJKLMNOPQRSTUVWXYZabcdefghijklmnopqrstuvwxyz0123456789_''"

definition spec_uppercase :: "nat \<Rightarrow> nat" where
  "spec_uppercase c =
     (case map_of (zip (U ''abcdefghijklmnopqrstuvwxyz'') (U ''ABCDEFGHIJKLMNOPQRSTUVWXYZ'')) c of
        Some upper_c \<Rightarrow> upper_c
      | None \<Rightarrow> c)"

definition spec_stream_component :: "pystr \<Rightarrow> pystr" where
  "spec_stream_component stream =
     (let replaced = map (\<lambda>c. if c = of_char CHR '' '' then of_char CHR ''_'' else c) stream;
          stripped = filter (\<lambda>c. c \<in> set spec_kept_chars) replaced;
          uppercased = map spec_uppercase stripped
      in if uppercased = [] then U ''OTHER'' else uppercased)"

section \<open>Python values\<close>

fun truthy :: "json \<Rightarrow> bool" where
  \<comment> \<open>\<open>bool(v)\<close>: \<open>None\<close>, \<open>False\<close>, zero, and empty texts, lists and dicts are falsy\<close>
  "truthy JNull = False"
| "truthy (JBool b) = b"
| "truthy (JInt i) = (i \<noteq> 0)"
| "truthy (JFloat w) = (w \<noteq> 0 \<and> w \<noteq> 0x8000000000000000)"
| "truthy (JStr s) = (s \<noteq> [])"
| "truthy (JArr xs) = (xs \<noteq> [])"
| "truthy (JObj kvs) = (kvs \<noteq> [])"

definition dict_lookup :: "(pystr \<times> json) list \<Rightarrow> pystr \<Rightarrow> json option" where
  \<comment> \<open>the value of a key in the parsed object: of a repeated key the last member counts\<close>
  "dict_lookup kvs k = map_of (rev kvs) k"

definition dict_get :: "(pystr \<times> json) list \<Rightarrow> pystr \<Rightarrow> json" where
  \<comment> \<open>\<open>data.get(k)\<close>: \<open>None\<close> for a missing key\<close>
  "dict_get kvs k = (case dict_lookup kvs k of None \<Rightarrow> JNull | Some v \<Rightarrow> v)"

fun str_nat :: "nat \<Rightarrow> pystr" where
  "str_nat n = (if n < 10 then [48 + n] else str_nat (n div 10) @ [48 + n mod 10])"

declare str_nat.simps [simp del]

definition str_int :: "int \<Rightarrow> pystr" where
  "str_int i = (if i < 0 then 45 # str_nat (nat (- i)) else str_nat (nat i))"

fun py_str :: "pyenv \<Rightarrow> json \<Rightarrow> pystr" where
  \<comment> \<open>\<open>str(v)\<close>\<close>
  "py_str py (JStr s) = s"
| "py_str py JNull = U ''None''"
| "py_str py (JBool b) = (if b then U ''True'' else U ''False'')"
| "py_str py (JInt i) = str_int i"
| "py_str py v = str_other py v"

fun join :: "pystr \<Rightarrow> pystr list \<Rightarrow> pystr" where
  \<comment> \<open>\<open>sep.join(xs)\<close>\<close>
  "join sep [] = []"
| "join sep [x] = x"
| "join sep (x # y # ys) = x @ sep @ join sep (y # ys)"

subsection \<open>\<open>int(text)\<close>\<close>

text \<open>
  \<open>int\<close> on a text: code points beyond ASCII are first replaced, a space by a blank and a
  decimal digit by its ASCII digit, anything else by \<open>?\<close>; then blanks around the literal
  are skipped, one sign is read, and the rest must be decimal digits with single
  underscores between them, no more of them than the interpreter's limit allows.
\<close>

definition is_py_space :: "nat \<Rightarrow> bool" where
  "is_py_space c = (c = 32 \<or> (9 \<le> c \<and> c \<le> 13))"

definition to_ascii_char :: "pyenv \<Rightarrow> nat \<Rightarrow> nat" where
  "to_ascii_char py c =
     (if c < 127 then c
      else if uni_isspace py c then 32
      else (case uni_decimal py c of Some d \<Rightarrow> 48 + d | None \<Rightarrow> 63))"

fun no_double_underscore :: "pystr \<Rightarrow> bool" where
  "no_double_underscore (a # b # cs) = (\<not> (a = 95 \<and> b = 95) \<and> no_double_underscore (b # cs))"
| "no_double_underscore cs = True"

definition int_body_ok :: "pystr \<Rightarrow> bool" where
  "int_body_ok b =
     (b \<noteq> [] \<and> list_all (\<lambda>c. is_ascii_digit c \<or> c = 95) b \<and> hd b \<noteq> 95 \<and> last b \<noteq> 95 \<and>
      no_double_underscore b)"

definition digits_value :: "pystr \<Rightarrow> nat" where
  "digits_value ds = foldl (\<lambda>a c. 10 * a + (c - 48)) 0 ds"

definition over_digit_limit :: "pyenv \<Rightarrow> nat \<Rightarrow> bool" where
  "over_digit_limit py n = (640 < n \<and> 0 < int_max_str_digits py \<and> int_max_str_digits py < n)"

definition py_int :: "pyenv \<Rightarrow> pystr \<Rightarrow> int option" where
  \<comment> \<open>\<open>None\<close> stands for the \<open>ValueError\<close>\<close>
  "py_int py s =
     (let t = dropWhile is_py_space (map (to_ascii_char py) s);
          neg = (t \<noteq> [] \<and> hd t = 45);
          u = (if t \<noteq> [] \<and> (hd t = 43 \<or> hd t = 45) then tl t else t);
          b = rev (dropWhile is_py_space (rev u));
          ds = filter is_ascii_digit b
      in if int_body_ok b \<and> \<not> over_digit_limit py (length ds)
         then Some (if neg then - int (digits_value ds) else int (digits_value ds))
         else None)"

section \<open>The clock\<close>

text \<open>
  What \<open>datetime.utcnow()\<close> returns is an input of the model: the UTC reading of the clock
  at the request.
\<close>

record datetime =
  dt_year :: nat
  dt_month :: nat
  dt_day :: nat
  dt_hour :: nat
  dt_minute :: nat
  dt_second :: nat
  dt_microsecond :: nat

definition days_in_month :: "nat \<Rightarrow> nat \<Rightarrow> nat" where
  "days_in_month y m =
     (if m = 2 then (if y mod 4 = 0 \<and> (y mod 100 \<noteq> 0 \<or> y mod 400 = 0) then 29 else 28)
      else if m = 4 \<or> m = 6 \<or> m = 9 \<or> m = 11 then 30 else 31)"

definition valid_datetime :: "datetime \<Rightarrow> bool" where
  \<comment> \<open>the values a Python \<open>datetime\<close> can hold\<close>
  "valid_datetime d =
     (1 \<le> dt_year d \<and> dt_year d \<le> 9999 \<and> 1 \<le> dt_month d \<and> dt_month d \<le> 12 \<and>
      1 \<le> dt_day d \<and> dt_day d \<le> days_in_month (dt_year d) (dt_month d) \<and>
      dt_hour d < 24 \<and> dt_minute d < 60 \<and> dt_second d < 60 \<and> dt_microsecond d < 1000000)"

definition digit_at :: "nat \<Rightarrow> nat \<Rightarrow> nat" where
  \<comment> \<open>the ASCII digit of \<open>n\<close> at decimal position \<open>i\<close>\<close>
  "digit_at n i = 48 + (n div 10 ^ i) mod 10"

definition pad2 :: "nat \<Rightarrow> pystr" where
  "pad2 n = [digit_at n 1, digit_at n 0]"

definition pad4 :: "nat \<Rightarrow> pystr" where
  "pad4 n = [digit_at n 3, digit_at n 2, digit_at n 1, digit_at n 0]"

definition pad6 :: "nat \<Rightarrow> pystr" where
  "pad6 n = [digit_at n 5, digit_at n 4, digit_at n 3, digit_at n 2, digit_at n 1, digit_at n 0]"

definition isoformat :: "datetime \<Rightarrow> pystr" where
  \<comment> \<open>\<open>YYYY-MM-DDTHH:MM:SS\<close>, followed by \<open>.ffffff\<close> unless the microseconds are zero\<close>
  "isoformat d =
     pad4 (dt_year d) @ U ''-'' @ pad2 (dt_month d) @ U ''-'' @ pad2 (dt_day d) @ U ''T'' @
     pad2 (dt_hour d) @ U '':'' @ pad2 (dt_minute d) @ U '':'' @ pad2 (dt_second d) @
     (if dt_microsecond d = 0 then [] else U ''.'' @ pad6 (dt_microsecond d))"

section \<open>The CSV writer\<close>

text \<open>
  \<open>csv.writer(csvfile)\<close> with its default dialect: comma, double quote, doubled quotes
  inside a quoted field, minimal quoting, rows ended by CR LF.
\<close>

definition csv_cell :: "pyenv \<Rightarrow> json \<Rightarrow> pystr" where
  \<comment> \<open>the text of a value in a row: \<open>None\<close> is the empty text, anything else its \<open>str\<close>\<close>
  "csv_cell py v = (case v of JNull \<Rightarrow> [] | _ \<Rightarrow> py_str py v)"

definition needs_quote :: "pystr \<Rightarrow> bool" where
  "needs_quote s = list_ex (\<lambda>c. c = 44 \<or> c = 34 \<or> c = 13 \<or> c = 10) s"

definition double_quotes :: "pystr \<Rightarrow> pystr" where
  "double_quotes s = concat (map (\<lambda>c. if c = 34 then [34, 34] else [c]) s)"

definition quote_field :: "pystr \<Rightarrow> pystr" where
  "quote_field s = (if needs_quote s then [34] @ double_quotes s @ [34] else s)"

definition writerow :: "pystr list \<Rightarrow> pystr" where
  \<comment> \<open>the text \<open>writer.writerow(cells)\<close> sends to the file; a row of one empty cell is
      written as a pair of quotes\<close>
  "writerow cells =
     (if cells = [[]] then [34, 34] else join [44] (map quote_field cells)) @ [13, 10]"

section \<open>Storage\<close>

text \<open>
  The records directory: the text of each file, by name.  A write can fail for reasons
  outside the program; the fault, if any, is an input of the model.  A failed \<open>open\<close>
  leaves the directory as it was; a failed write leaves the part of the new text that had
  reached the file.
\<close>

type_synonym storage = "pystr \<rightharpoonup> pystr"

datatype io_fault = OpenFails pystr | WriteFails pystr nat

definition is_surrogate :: "nat \<Rightarrow> bool" where
  "is_surrogate c = (55296 \<le> c \<and> c \<le> 57343)"

definition utf8_encodable :: "pystr \<Rightarrow> bool" where
  "utf8_encodable s = (\<not> list_ex is_surrogate s)"

definition file_text :: "storage \<Rightarrow> pystr \<Rightarrow> pystr" where
  "file_text fs name = (case fs name of None \<Rightarrow> [] | Some t \<Rightarrow> t)"

definition append_csv ::
  "pyenv \<Rightarrow> io_fault option \<Rightarrow> storage \<Rightarrow> pystr \<Rightarrow> bool \<Rightarrow> pystr list \<Rightarrow> pystr list
     \<Rightarrow> (pystr + unit) \<times> storage" where
  \<comment> \<open>the \<open>with open(path, mode="a", ...)\<close> block; \<open>Inl\<close> carries the text of the exception.
      The header is buffered before the row is encoded, and closing the file flushes it.\<close>
  "append_csv py fault fs name write_header headers row =
     (case fault of
        Some (OpenFails msg) \<Rightarrow> (Inl msg, fs)
      | _ \<Rightarrow>
         (let old = file_text fs name;
              head = (if write_header then writerow headers else []);
              line = writerow row
          in if \<not> utf8_encodable line
             then (Inl (encode_error py line), fs(name \<mapsto> old @ head))
             else (case fault of
                     Some (WriteFails msg n) \<Rightarrow> (Inl msg, fs(name \<mapsto> old @ take n (head @ line)))
                   | _ \<Rightarrow> (Inr (), fs(name \<mapsto> old @ head @ line)))))"

section \<open>The request handler\<close>

datatype py_exception = AttributeError | KeyError

record response =
  status_code :: nat
  body :: "(string \<times> pystr) list"

definition error_response :: "nat \<Rightarrow> pystr \<Rightarrow> response" where
  \<comment> \<open>\<open>jsonify({"status": "error", "message": msg}), code\<close>\<close>
  "error_response code msg =
     \<lparr> status_code = code, body = [(''status'', U ''error''), (''message'', msg)] \<rparr>"

definition success_response :: "pystr \<Rightarrow> response" where
  \<comment> \<open>\<open>jsonify({"status": "success", "file": filename})\<close>\<close>
  "success_response filename =
     \<lparr> status_code = 200, body = [(''status'', U ''success''), (''file'', filename)] \<rparr>"

definition required :: "pystr list" where
  "required = [U ''name'', U ''email'', U ''roll'', U ''birthdate'', U ''registration'',
               U ''stream'', U ''session'', U ''year'', U ''course'']"

definition headers :: "pystr list" where
  "headers = [U ''timestamp'', U ''name'', U ''email'', U ''roll'', U ''birthdate'',
              U ''registration'', U ''stream'', U ''session'', U ''year'', U ''course'']"

definition missing_fields :: "(pystr \<times> json) list \<Rightarrow> pystr list" where
  \<comment> \<open>\<open>[k for k in required if not data.get(k)]\<close>\<close>
  "missing_fields kvs = filter (\<lambda>k. \<not> truthy (dict_get kvs k)) required"

definition session_out_of_order :: "pyenv \<Rightarrow> json \<Rightarrow> bool" where
  \<comment> \<open>the \<open>try\<close> block: true when it returns the error; an exception (no \<open>split\<close> on a value
      that is not a text, a part that \<open>int\<close> rejects) skips the check\<close>
  "session_out_of_order py session_val =
     (case session_val of
        JStr s \<Rightarrow>
          (let s_parts = split_on 45 s
           in if length s_parts = 2
              then (case py_int py (s_parts ! 0) of
                      None \<Rightarrow> False
                    | Some s0 \<Rightarrow>
                        (case py_int py (s_parts ! 1) of
                           None \<Rightarrow> False
                         | Some s1 \<Rightarrow> s1 \<le> s0))
              else False)
      | _ \<Rightarrow> False)"

definition dict_item :: "(pystr \<times> json) list \<Rightarrow> pystr \<Rightarrow> py_exception + json" where
  \<comment> \<open>\<open>data[k]\<close>\<close>
  "dict_item kvs k = (case dict_lookup kvs k of None \<Rightarrow> Inl KeyError | Some v \<Rightarrow> Inr v)"

definition make_filename_call :: "pyenv \<Rightarrow> json \<Rightarrow> pystr \<Rightarrow> json \<Rightarrow> py_exception + pystr" where
  \<comment> \<open>\<open>make_filename\<close> on the values of the payload: \<open>replace\<close> and \<open>split\<close> exist on texts
      only\<close>
  "make_filename_call py stream year session =
     (case stream of
        JStr st \<Rightarrow>
          (case session of
             JStr se \<Rightarrow> Inr (make_filename py st year se)
           | _ \<Rightarrow> Inl AttributeError)
      | _ \<Rightarrow> Inl AttributeError)"

definition data_row :: "pyenv \<Rightarrow> datetime \<Rightarrow> (pystr \<times> json) list \<Rightarrow> pystr list" where
  \<comment> \<open>the cells of \<open>row\<close> as the writer renders them\<close>
  "data_row py now kvs =
     isoformat now #
     map (\<lambda>k. csv_cell py (dict_get kvs k))
       [U ''name'', U ''email'', U ''roll'', U ''birthdate'', U ''registration'',
        U ''stream'', U ''session'', U ''year'', U ''course'']"

definition save_profile ::
  "pyenv \<Rightarrow> datetime \<Rightarrow> io_fault option \<Rightarrow> storage \<Rightarrow> json
     \<Rightarrow> (py_exception + response) \<times> storage" where
  \<comment> \<open>\<open>Inl\<close>: an exception leaves the handler (the framework answers 500)\<close>
  "save_profile py now fault fs parsed =
     (case (if truthy parsed then parsed else JObj []) of
        JObj kvs \<Rightarrow>
          (let missing = missing_fields kvs
           in if missing \<noteq> []
              then (Inr (error_response 400 (U ''Missing fields: '' @ join (U '', '') missing)), fs)
              else
               (let session_val = dict_get kvs (U ''session'')
                in if session_out_of_order py session_val
                   then (Inr (error_response 400
                                (U ''Session end year must be after start year.'')), fs)
                   else
                    (case dict_item kvs (U ''stream'') of
                       Inl e \<Rightarrow> (Inl e, fs)
                     | Inr stream \<Rightarrow>
                    (case dict_item kvs (U ''year'') of
                       Inl e \<Rightarrow> (Inl e, fs)
                     | Inr yr \<Rightarrow>
                    (case make_filename_call py stream (py_str py yr) session_val of
                       Inl e \<Rightarrow> (Inl e, fs)
                     | Inr filename \<Rightarrow>
                        (let row = data_row py now kvs;
                             write_header = (fs filename = None)
                         in case append_csv py fault fs filename write_header headers row of
                              (Inl e, fs') \<Rightarrow>
                                (Inr (error_response 500 (U ''Could not write CSV: '' @ e)), fs')
                            | (Inr u, fs') \<Rightarrow> (Inr (success_response filename), fs')))))))
      | _ \<Rightarrow> (Inl AttributeError, fs))"

section \<open>Sequences of submissions\<close>

text \<open>
  Requests handled one after the other, each with its own clock reading and storage
  fault, the storage of one being the storage the next one finds.
\<close>

definition is_success :: "py_exception + response \<Rightarrow> bool" where
  "is_success r = (case r of Inl e \<Rightarrow> False | Inr resp \<Rightarrow> status_code resp = 200)"

fun run :: "pyenv \<Rightarrow> storage \<Rightarrow> (datetime \<times> io_fault option \<times> json) list \<Rightarrow> storage" where
  "run py fs [] = fs"
| "run py fs ((now, fault, parsed) # rest) =
     run py (snd (save_profile py now fault fs parsed)) rest"

fun all_succeed :: "pyenv \<Rightarrow> storage \<Rightarrow> (datetime \<times> io_fault option \<times> json) list \<Rightarrow> bool" where
  "all_succeed py fs [] = True"
| "all_succeed py fs ((now, fault, parsed) # rest) =
     (is_success (fst (save_profile py now fault fs parsed)) \<and>
      all_succeed py (snd (save_profile py now fault fs parsed)) rest)"

text \<open>
  A record file in order: absent, or the header row followed by at least one row, none of
  them the header, every one beginning with a cell that is not empty.
\<close>

definition record_file_ok :: "storage \<Rightarrow> pystr \<Rightarrow> bool" where
  "record_file_ok fs name =
     (fs name = None \<or>
      (\<exists>rows. rows \<noteq> [] \<and> headers \<notin> set rows \<and>
         list_all (\<lambda>row. row \<noteq> [] \<and> hd row \<noteq> []) rows \<and>
         fs name = Some (concat (map writerow (headers # rows)))))"

text \<open>
  The header as one line of text, and the physical lines of a text: the pieces between
  line feeds, a carriage return before the line feed dropped.
\<close>

definition header_line :: pystr where
  "header_line = U ''timestamp,name,email,roll,birthdate,registration,stream,session,year,course''"

definition text_lines :: "pystr \<Rightarrow> pystr list" where
  "text_lines t = map (\<lambda>l. if l \<noteq> [] \<and> last l = 13 then butlast l else l) (split_on 10 t)"

section \<open>Reading a record file back\<close>

text \<open>
  Modelled from the spec: the repository writes record files and has no code that reads
  them.  Reading a file back (testable property 10) is taken to be the conventional
  decoding of the row encoding of section 6, as Python's \<open>csv.reader\<close> performs it with
  the writer's dialect on a file opened without newline translation: commas separate
  fields, a field that starts with a double quote runs to the closing quote, a doubled
  quote inside it stands for one quote, and CR, LF or CR LF outside quotes ends the row.
  The arguments of \<open>csv_rows\<close> are the state, the field read so far, the fields of the
  row read so far, and the text still to read.
\<close>

datatype reader_state =
  START_RECORD | START_FIELD | IN_FIELD | IN_QUOTED_FIELD | QUOTE_IN_QUOTED_FIELD | EAT_CRNL

definition is_newline :: "nat \<Rightarrow> bool" where
  "is_newline c = (c = 10 \<or> c = 13)"

definition after_newline :: "nat \<Rightarrow> reader_state" where
  \<comment> \<open>after CR one LF is still part of the line end\<close>
  "after_newline c = (if c = 13 then EAT_CRNL else START_RECORD)"

fun csv_rows :: "reader_state \<Rightarrow> pystr \<Rightarrow> pystr list \<Rightarrow> pystr \<Rightarrow> pystr list list" where
  "csv_rows st fld flds [] =
     (if st = START_RECORD \<or> st = EAT_CRNL then [] else [flds @ [fld]])"
| "csv_rows st fld flds (c # cs) =
     (if st = EAT_CRNL \<and> c = 10 then csv_rows START_RECORD [] [] cs
      else if (st = START_RECORD \<or> st = EAT_CRNL) \<and> is_newline c
      then [] # csv_rows (after_newline c) [] [] cs
      else if st = IN_QUOTED_FIELD
      then (if c = 34 then csv_rows QUOTE_IN_QUOTED_FIELD fld flds cs
            else csv_rows IN_QUOTED_FIELD (fld @ [c]) flds cs)
      else if st = QUOTE_IN_QUOTED_FIELD \<and> c = 34
      then csv_rows IN_QUOTED_FIELD (fld @ [34]) flds cs
      else if is_newline c then (flds @ [fld]) # csv_rows (after_newline c) [] [] cs
      else if c = 44 then csv_rows START_FIELD [] (flds @ [fld]) cs
      else if c = 34 \<and> (st = START_RECORD \<or> st = EAT_CRNL \<or> st = START_FIELD)
      then csv_rows IN_QUOTED_FIELD [] flds cs
      else csv_rows IN_FIELD (fld @ [c]) flds cs)"

definition in_cell :: "reader_state \<Rightarrow> bool" where
  \<comment> \<open>the states in which a comma or a line end closes the current field\<close>
  "in_cell st = (st = START_FIELD \<or> st = IN_FIELD \<or> st = QUOTE_IN_QUOTED_FIELD)"

definition csv_read :: "pystr \<Rightarrow> pystr list list" where
  "csv_read t = csv_rows START_RECORD [] [] t"

text \<open>
  Modelled from the spec: a timestamp is parseable when it has the shape
  \<open>YYYY-MM-DDTHH:MM:SS\<close>, optionally followed by \<open>.ffffff\<close>, and its numbers are those of
  a date and a time of day (the repository has no parser of its own).
\<close>

definition iso_shape :: "pystr \<Rightarrow> bool" where
  "iso_shape s =
     ((length s = 19 \<or> length s = 26) \<and>
      map (\<lambda>i. s ! i) [4, 7, 10, 13, 16] = [45, 45, 84, 58, 58] \<and>
      (length s = 19 \<or> s ! 19 = 46) \<and>
      list_all (\<lambda>i. is_ascii_digit (s ! i))
        ([0, 1, 2, 3, 5, 6, 8, 9, 11, 12, 14, 15, 17, 18] @
         (if length s = 26 then [20, 21, 22, 23, 24, 25] else [])))"

definition number_at :: "pystr \<Rightarrow> nat \<Rightarrow> nat \<Rightarrow> nat" where
  \<comment> \<open>the decimal number in the \<open>n\<close> characters from position \<open>i\<close>\<close>
  "number_at s i n = digits_value (take n (drop i s))"

definition parse_iso :: "pystr \<Rightarrow> datetime option" where
  "parse_iso s =
     (if iso_shape s
      then (let d = \<lparr> dt_year = number_at s 0 4, dt_month = number_at s 5 2,
                      dt_day = number_at s 8 2, dt_hour = number_at s 11 2,
                      dt_minute = number_at s 14 2, dt_second = number_at s 17 2,
                      dt_microsecond = (if length s = 26 then number_at s 20 6 else 0) \<rparr>
            in if valid_datetime d then Some d else None)
      else None)"

section \<open>Sample inputs\<close>

text \<open>A clock reading and a payload of nine text fields, used to run the model.\<close>

definition sample_now :: datetime where
  "sample_now = \<lparr> dt_year = 2026, dt_month = 11, dt_day = 4, dt_hour = 9, dt_minute = 5,
                  dt_second = 7, dt_microsecond = 123 \<rparr>"

definition sample_fields :: "pystr \<Rightarrow> pystr \<Rightarrow> (pystr \<times> json) list" where
  "sample_fields stream session =
     [(U ''name'', JStr (U ''Ann Lee'')), (U ''email'', JStr (U ''ann@example.org'')),
      (U ''roll'', JStr (U ''17'')), (U ''birthdate'', JStr (U ''2004-01-02'')),
      (U ''registration'', JStr (U ''R-1, \"A\"'')), (U ''stream'', JStr stream),
      (U ''session'', JStr session), (U ''year'', JStr (U ''2'')), (U ''course'', JStr (U ''BSc''))]"

definition sample_later :: datetime where
  "sample_later = \<lparr> dt_year = 2026, dt_month = 11, dt_day = 5, dt_hour = 16, dt_minute = 40,
                    dt_second = 0, dt_microsecond = 0 \<rparr>"

definition sample_file :: pystr where
  "sample_file = U ''CS_2nd_2023-26.csv''"

definition sample_values :: "pystr \<Rightarrow> pystr \<Rightarrow> pystr list" where
  "sample_values stream session =
     [U ''Ann Lee'', U ''ann@example.org'', U ''17'', U ''2004-01-02'', U ''R-1, \"A\"'',
      stream, session, U ''2'', U ''BSc'']"

text \<open>A payload whose name runs over three lines, the middle one being the header.\<close>

definition multiline_name :: pystr where
  "multiline_name = U ''x'' @ [13, 10] @ header_line @ [13, 10] @ U ''y''"

definition multiline_fields :: "(pystr \<times> json) list" where
  "multiline_fields =
     (U ''name'', JStr multiline_name) # tl (sample_fields (U ''CS'') (U ''2023-2026''))"

definition multiline_values :: "pystr list" where
  "multiline_values = multiline_name # tl (sample_values (U ''CS'') (U ''2023-2026''))"

text \<open>A payload with a boolean name and numeric roll and year, and its cells.\<close>

definition mixed_fields :: "(pystr \<times> json) list" where
  "mixed_fields =
     [(U ''name'', JBool True), (U ''email'', JStr (U ''ann@example.org'')),
      (U ''roll'', JInt 17), (U ''birthdate'', JStr (U ''2004-01-02'')),
      (U ''registration'', JStr (U ''R-1'')), (U ''stream'', JStr (U ''CS'')),
      (U ''session'', JStr (U ''2023-2026'')), (U ''year'', JInt 2),
      (U ''course'', JStr (U ''BSc''))]"

definition mixed_values :: "pystr list" where
  "mixed_values =
     [U ''True'', U ''ann@example.org'', U ''17'', U ''2004-01-02'', U ''R-1'', U ''CS'',
      U ''2023-2026'', U ''2'', U ''BSc'']"

section \<open>Verified properties\<close>

lemma U_simps [simp]:
  "U [] = []"
  "U (c # cs) = of_char c # U cs"
  by (simp_all add: U_def)

subsection \<open>Splitting and session compaction\<close>

lemmas char_class_defs = is_ascii_digit_def is_ascii_letter_def stream_char_def
  session_char_def filename_char_def

lemma split_on_not_Nil: "split_on sep s \<noteq> []"
  by (induction s) (simp_all add: Let_def)

lemma split_on_no_sep: "sep \<notin> set s \<Longrightarrow> split_on sep s = [s]"
  by (induction s) (simp_all add: Let_def)

lemma split_on_append: "sep \<notin> set a \<Longrightarrow> split_on sep (a @ sep # b) = a # split_on sep b"
  by (induction a) (simp_all add: Let_def)

lemma split_on_two: "sep \<notin> set a \<Longrightarrow> sep \<notin> set b \<Longrightarrow> split_on sep (a @ sep # b) = [a, b]"
  by (simp add: split_on_append split_on_no_sep)

lemma split_on_join: "split_on sep s = p # ps \<Longrightarrow> sep \<notin> set p \<and> (ps = [] \<longrightarrow> s = p) \<and> (ps \<noteq> [] \<longrightarrow> (\<exists>r. s = p @ sep # r \<and> split_on sep r = ps))"
proof (induction s arbitrary: p ps)
  case Nil
  then show ?case by simp
next
  case (Cons c cs)
  show ?case
  proof (cases "c = sep")
    case True
    with Cons.prems show ?thesis by (auto simp: split_on_not_Nil)
  next
    case False
    obtain q qs where q: "split_on sep cs = q # qs"
      using split_on_not_Nil[of sep cs] by (cases "split_on sep cs") auto
    from Cons.IH[OF q] q Cons.prems False show ?thesis
      by (auto simp: Let_def)
  qed
qed

lemma split_on_two_iff:
  "split_on sep s = [a, b] \<longleftrightarrow> s = a @ sep # b \<and> sep \<notin> set a \<and> sep \<notin> set b"
proof
  assume h: "split_on sep s = [a, b]"
  from split_on_join[OF h] obtain r where r: "sep \<notin> set a" "s = a @ sep # r" "split_on sep r = [b]"
    by auto
  from split_on_join[OF r(3)] have "sep \<notin> set b" "r = b" by auto
  with r show "s = a @ sep # b \<and> sep \<notin> set a \<and> sep \<notin> set b" by simp
next
  assume "s = a @ sep # b \<and> sep \<notin> set a \<and> sep \<notin> set b"
  then show "split_on sep s = [a, b]" by (simp add: split_on_two)
qed

lemma isdigit_no_hyphen: "isdigit py s \<Longrightarrow> 45 \<notin> set s"
  by (auto simp: isdigit_def list_all_iff digit_char_def is_ascii_digit_def)

lemma length_two_iff: "length xs = 2 \<longleftrightarrow> (\<exists>a b. xs = [a, b])"
  by (cases xs; cases "tl xs"; cases "tl (tl xs)") auto

text \<open>
  Claim C5.  Session compaction: when the session text is two parts joined by one hyphen
  and \<open>str.isdigit\<close> accepts both parts, the piece is the first part, a hyphen and the
  last two characters of the second part; for every other session text the piece is the
  text with every character other than \<open>0\<close>..\<open>9\<close> and the hyphen removed.
\<close>

theorem session_compaction:
  "(isdigit py a \<and> isdigit py b \<longrightarrow>
      session_filename_piece py (a @ U ''-'' @ b) = a @ U ''-'' @ last_two b) \<and>
   ((\<forall>a b. session = a @ U ''-'' @ b \<longrightarrow> \<not> (isdigit py a \<and> isdigit py b)) \<longrightarrow>
      session_filename_piece py session = filter (\<lambda>c. is_ascii_digit c \<or> c = 45) session)"
proof (intro conjI impI)
  assume h: "isdigit py a \<and> isdigit py b"
  then have "45 \<notin> set a" "45 \<notin> set b"
    by (auto dest: isdigit_no_hyphen)
  then have "split_on 45 (a @ 45 # b) = [a, b]"
    by (rule split_on_two)
  with h show "session_filename_piece py (a @ U ''-'' @ b) = a @ U ''-'' @ last_two b"
    by (simp add: session_filename_piece_def Let_def)
next
  assume h: "\<forall>a b. session = a @ U ''-'' @ b \<longrightarrow> \<not> (isdigit py a \<and> isdigit py b)"
  have "\<not> (length (split_on 45 session) = 2 \<and> isdigit py (split_on 45 session ! 0)
            \<and> isdigit py (split_on 45 session ! 1))"
  proof
    assume g: "length (split_on 45 session) = 2 \<and> isdigit py (split_on 45 session ! 0)
            \<and> isdigit py (split_on 45 session ! 1)"
    then obtain a b where ab: "split_on 45 session = [a, b]"
      by (auto simp: length_two_iff)
    then have "session = a @ U ''-'' @ b" by (simp add: split_on_two_iff)
    with h have "\<not> (isdigit py a \<and> isdigit py b)" by blast
    with g ab show False by simp
  qed
  moreover have "session_char = (\<lambda>c. is_ascii_digit c \<or> c = 45)"
    by (simp add: fun_eq_iff session_char_def)
  ultimately show "session_filename_piece py session = filter (\<lambda>c. is_ascii_digit c \<or> c = 45) session"
    by (auto simp: session_filename_piece_def Let_def re_sub_not_def)
qed

lemma isdigit_ascii [simp]:
  "isdigit py [] = False"
  "c < 128 \<Longrightarrow> isdigit py (c # cs) = (is_ascii_digit c \<and> (cs = [] \<or> isdigit py cs))"
  by (auto simp: isdigit_def digit_char_def)

text \<open>The three sessions of the specification: \<open>2023-2026\<close>, \<open>23-26\<close> and \<open>bad\<close>.\<close>

theorem session_compaction_witness:
  "session_filename_piece ascii_env (U ''2023-2026'') = U ''2023-26'' \<and>
   session_filename_piece ascii_env (U ''23-26'') = U ''23-26'' \<and>
   session_filename_piece ascii_env (U ''bad'') = []"
proof -
  have 1: "session_filename_piece ascii_env (U ''2023-2026'') = U ''2023-26''"
    using session_compaction[of ascii_env "U ''2023''" "U ''2026''"]
    by (simp add: is_ascii_digit_def last_two_def)
  have 2: "session_filename_piece ascii_env (U ''23-26'') = U ''23-26''"
    using session_compaction[of ascii_env "U ''23''" "U ''26''"]
    by (simp add: is_ascii_digit_def last_two_def)
  have "\<forall>a b. U ''bad'' = a @ U ''-'' @ b \<longrightarrow> \<not> (isdigit ascii_env a \<and> isdigit ascii_env b)"
  proof (intro allI impI)
    fix a b :: pystr
    assume e: "U ''bad'' = a @ U ''-'' @ b"
    have "45 \<in> set (a @ U ''-'' @ b)" by simp
    with e have "45 \<in> set (U ''bad'')" by simp
    then show "\<not> (isdigit ascii_env a \<and> isdigit ascii_env b)" by simp
  qed
  then have 3: "session_filename_piece ascii_env (U ''bad'') = []"
    using session_compaction[of ascii_env "[]" "[]" "U ''bad''"]
    by (simp add: is_ascii_digit_def)
  from 1 2 3 show ?thesis by simp
qed

subsection \<open>The derived filename\<close>

lemma filename_char_stream: "stream_char c \<Longrightarrow> filename_char (upper_char c)"
  by (auto simp: char_class_defs upper_char_def)

lemma sanitize_stream_safe: "filter filename_char (sanitize_stream stream) = sanitize_stream stream"
proof (cases "filter stream_char (replace_char 32 95 stream) = []")
  case True
  then show ?thesis
    by (simp add: sanitize_stream_def re_sub_not_def char_class_defs)
next
  case False
  have "\<forall>c \<in> set (map upper_char (filter stream_char (replace_char 32 95 stream))).
          filename_char c"
    by (auto intro: filename_char_stream)
  then have "filter filename_char (map upper_char (filter stream_char (replace_char 32 95 stream)))
      = map upper_char (filter stream_char (replace_char 32 95 stream))"
    by (simp only: filter_id_conv)
  with False show ?thesis
    by (simp add: sanitize_stream_def re_sub_not_def upper_def)
qed

lemma sanitize_stream_not_Nil: "sanitize_stream stream \<noteq> []"
  by (simp add: sanitize_stream_def Let_def upper_def)

lemma make_filename_parts:
  "make_filename py stream year session =
     sanitize_stream stream @ U ''_'' @ filter filename_char (ordinal_of year) @ U ''_'' @
     filter filename_char (session_filename_piece py session) @ U ''.csv''"
  by (simp add: make_filename_def Let_def re_sub_not_def sanitize_stream_safe char_class_defs)

lemma spec_kept_chars_upt: "spec_kept_chars = [65..<91] @ [97..<123] @ [48..<58] @ [95]"
  by (simp add: spec_kept_chars_def upt_rec_numeral)

lemma spec_kept_chars_stream_char: "(c \<in> set spec_kept_chars) = stream_char c"
  unfolding spec_kept_chars_upt
  by (auto simp: stream_char_def is_ascii_letter_def is_ascii_digit_def simp del: upt_rec_numeral)

lemma lowercase_upt: "U ''abcdefghijklmnopqrstuvwxyz'' = [97..<123]"
  by (simp add: upt_rec_numeral)

lemma uppercase_of_lowercase:
  "U ''ABCDEFGHIJKLMNOPQRSTUVWXYZ'' = map (\<lambda>c. c - 32) (U ''abcdefghijklmnopqrstuvwxyz'')"
  by simp

lemma spec_uppercase_upper_char: "spec_uppercase c = upper_char c"
proof -
  have "spec_uppercase c = (if c \<in> set [97..<123] then c - 32 else c)"
    unfolding spec_uppercase_def uppercase_of_lowercase map_of_zip_map lowercase_upt
    by (simp only: option.case if_distrib[of "case_option c (\<lambda>u. u)"] cong: if_cong)
  then show ?thesis by (auto simp: upper_char_def simp del: upt_rec_numeral)
qed

text \<open>
  Claim C7.  The source's \<open>sanitize_stream\<close> is the specification's rule, the derived
  filename begins with that component followed by an underscore (the final safety pass
  leaves it untouched), the stream \<open>!!!\<close> gives the component \<open>OTHER\<close>, and the stream
  \<open>b.tech cs 2\<close> gives \<open>BTECH_CS_2\<close>.
\<close>

theorem stream_sanitization_rule:
  "sanitize_stream stream = spec_stream_component stream \<and>
   make_filename py stream year session =
     spec_stream_component stream @ U ''_'' @ filter filename_char (ordinal_of year) @ U ''_'' @
     filter filename_char (session_filename_piece py session) @ U ''.csv'' \<and>
   spec_stream_component (U ''!!!'') = U ''OTHER'' \<and>
   make_filename py (U ''!!!'') (U ''2'') (U ''2023-2026'') = U ''OTHER_2nd_2023-26.csv'' \<and>
   sanitize_stream (U ''b.tech cs 2'') = U ''BTECH_CS_2'' \<and>
   spec_stream_component (U ''b.tech cs 2'') = U ''BTECH_CS_2'' \<and>
   make_filename py (U ''b.tech cs 2'') (U ''3'') (U ''2023-2026'') = U ''BTECH_CS_2_3rd_2023-26.csv''"
proof -
  have k: "(\<lambda>c. c \<in> set spec_kept_chars) = stream_char"
    by (simp add: fun_eq_iff spec_kept_chars_stream_char)
  have u: "spec_uppercase = upper_char"
    by (simp add: fun_eq_iff spec_uppercase_upper_char)
  have r: "(\<lambda>c. if c = of_char CHR '' '' then of_char CHR ''_'' else c)
      = (\<lambda>c::nat. if c = 32 then 95 else c)"
    by (simp add: fun_eq_iff)
  have 1: "sanitize_stream stream = spec_stream_component stream" for stream
    unfolding spec_stream_component_def k u r
    by (simp add: sanitize_stream_def Let_def re_sub_not_def replace_char_def upper_def)
  have e: "sanitize_stream (U ''!!!'') = U ''OTHER''"
    "sanitize_stream (U ''b.tech cs 2'') = U ''BTECH_CS_2''"
    by (simp_all add: sanitize_stream_def Let_def re_sub_not_def replace_char_def upper_def
          upper_char_def char_class_defs)
  have 3: "session_filename_piece py (U ''2023-2026'') = U ''2023-26''"
    by (simp add: session_filename_piece_def Let_def is_ascii_digit_def last_two_def)
  have 4: "ordinal_of (U ''2'') = U ''2nd''" "ordinal_of (U ''3'') = U ''3rd''"
    by (simp_all add: ordinal_of_def ORDINAL_def)
  have 5: "make_filename py (U ''!!!'') (U ''2'') (U ''2023-2026'') = U ''OTHER_2nd_2023-26.csv''"
    "make_filename py (U ''b.tech cs 2'') (U ''3'') (U ''2023-2026'')
       = U ''BTECH_CS_2_3rd_2023-26.csv''"
    unfolding make_filename_parts e 3 4 by (simp_all add: char_class_defs)
  have p: "make_filename py stream year session =
     spec_stream_component stream @ U ''_'' @ filter filename_char (ordinal_of year) @ U ''_'' @
     filter filename_char (session_filename_piece py session) @ U ''.csv''"
    unfolding 1[symmetric] by (rule make_filename_parts)
  from 1[of stream] p e 5 show ?thesis
    unfolding 1[symmetric] by (simp only: simp_thms)
qed

text \<open>
  Claim C6.  \<open>make_filename\<close> is a total function of its three texts; its result is never
  empty and holds only ASCII letters, digits, underscores, hyphens and periods, so neither
  \<open>/\<close> nor \<open>\\\<close> occurs in it.
\<close>

theorem make_filename_total_safe:
  "make_filename py stream year session \<noteq> [] \<and>
   list_all filename_char (make_filename py stream year session) \<and>
   list_all (\<lambda>c. is_ascii_letter c \<or> is_ascii_digit c \<or> c = 95 \<or> c = 45 \<or> c = 46)
     (make_filename py stream year session) \<and>
   47 \<notin> set (make_filename py stream year session) \<and>
   92 \<notin> set (make_filename py stream year session)"
proof -
  have a: "list_all filename_char (make_filename py stream year session)"
    by (auto simp: make_filename_def Let_def re_sub_not_def list_all_iff)
  have fc: "filename_char = (\<lambda>c. is_ascii_letter c \<or> is_ascii_digit c \<or> c = 95 \<or> c = 45 \<or> c = 46)"
    by (simp add: fun_eq_iff filename_char_def)
  have b: "make_filename py stream year session \<noteq> []"
    by (simp add: make_filename_parts sanitize_stream_not_Nil)
  have c: "47 \<notin> set (make_filename py stream year session)"
    "92 \<notin> set (make_filename py stream year session)"
    using a by (auto simp: list_all_iff char_class_defs)
  from a b c show ?thesis using fc by simp
qed

text \<open>
  Claim C1 as the specification states it fails: the space of the stream becomes an
  underscore, which the sanitization keeps, so the component of \<open>Comp Sci!\<close> is not
  \<open>COMPSCI\<close> and the filename of \<open>B.Tech CS\<close> is not \<open>BTECHCS_2nd_2023-26.csv\<close>.
\<close>

theorem worked_examples_counterexample:
  "sanitize_stream (U ''Comp Sci!'') \<noteq> U ''COMPSCI'' \<and>
   make_filename ascii_env (U ''B.Tech CS'') (U ''2'') (U ''2023-2026'')
     \<noteq> U ''BTECHCS_2nd_2023-26.csv''"
proof -
  have s: "sanitize_stream (U ''Comp Sci!'') = U ''COMP_SCI''"
    "sanitize_stream (U ''B.Tech CS'') = U ''BTECH_CS''"
    by (simp_all add: sanitize_stream_def Let_def re_sub_not_def replace_char_def upper_def
          upper_char_def char_class_defs)
  show ?thesis
    unfolding make_filename_parts s by simp
qed

text \<open>
  Claim C1, amended.  The stream \<open>Comp Sci!\<close> has the component \<open>COMP_SCI\<close>, and stream
  \<open>B.Tech CS\<close>, year \<open>2\<close>, session \<open>2023-2026\<close> give \<open>BTECH_CS_2nd_2023-26.csv\<close>.
\<close>

theorem worked_examples:
  "sanitize_stream (U ''Comp Sci!'') = U ''COMP_SCI'' \<and>
   make_filename py (U ''Comp Sci!'') (U ''1'') (U ''2023-2026'') = U ''COMP_SCI_1st_2023-26.csv'' \<and>
   make_filename py (U ''B.Tech CS'') (U ''2'') (U ''2023-2026'') = U ''BTECH_CS_2nd_2023-26.csv''"
proof -
  have s: "sanitize_stream (U ''Comp Sci!'') = U ''COMP_SCI''"
    "sanitize_stream (U ''B.Tech CS'') = U ''BTECH_CS''"
    by (simp_all add: sanitize_stream_def Let_def re_sub_not_def replace_char_def upper_def
          upper_char_def char_class_defs)
  have 3: "session_filename_piece py (U ''2023-2026'') = U ''2023-26''"
    by (simp add: session_filename_piece_def Let_def is_ascii_digit_def last_two_def)
  have 4: "ordinal_of (U ''1'') = U ''1st''" "ordinal_of (U ''2'') = U ''2nd''"
    by (simp_all add: ordinal_of_def ORDINAL_def)
  show ?thesis
    unfolding make_filename_parts s 3 4 by (simp add: char_class_defs)
qed

subsection \<open>The request handler: validation\<close>

lemma data_of_object: "(if truthy (JObj kvs) then JObj kvs else JObj []) = JObj kvs"
  by simp

lemma save_profile_missing:
  "missing_fields kvs \<noteq> [] \<Longrightarrow>
   save_profile py now fault fs (JObj kvs) =
     (Inr (error_response 400 (U ''Missing fields: '' @ join (U '', '') (missing_fields kvs))), fs)"
  unfolding save_profile_def data_of_object by (simp add: Let_def)

lemma in_missing_fields:
  "k \<in> set (missing_fields kvs) \<longleftrightarrow> k \<in> set required \<and> \<not> truthy (dict_get kvs k)"
  by (auto simp: missing_fields_def)

lemma missing_fields_Nil:
  "missing_fields kvs = [] \<longleftrightarrow> (\<forall>k \<in> set required. truthy (dict_get kvs k))"
  by (auto simp: missing_fields_def filter_empty_conv)

lemma dict_item_truthy: "truthy (dict_get kvs k) \<Longrightarrow> dict_item kvs k = Inr (dict_get kvs k)"
  by (auto simp: dict_get_def dict_item_def split: option.splits)

lemma required_members:
  "U ''stream'' \<in> set required" "U ''session'' \<in> set required" "U ''year'' \<in> set required"
  by (simp_all add: required_def)

lemma save_profile_valid:
  assumes "missing_fields kvs = []"
  shows "save_profile py now fault fs (JObj kvs) =
     (if session_out_of_order py (dict_get kvs (U ''session''))
      then (Inr (error_response 400 (U ''Session end year must be after start year.'')), fs)
      else (case make_filename_call py (dict_get kvs (U ''stream''))
                   (py_str py (dict_get kvs (U ''year''))) (dict_get kvs (U ''session'')) of
              Inl e \<Rightarrow> (Inl e, fs)
            | Inr filename \<Rightarrow>
               (case append_csv py fault fs filename (fs filename = None) headers
                       (data_row py now kvs) of
                  (Inl e, fs') \<Rightarrow> (Inr (error_response 500 (U ''Could not write CSV: '' @ e)), fs')
                | (Inr u, fs') \<Rightarrow> (Inr (success_response filename), fs'))))"
proof -
  from assms have "\<forall>k \<in> set required. truthy (dict_get kvs k)"
    by (simp add: missing_fields_Nil)
  then have t: "truthy (dict_get kvs (U ''stream''))" "truthy (dict_get kvs (U ''year''))"
    using required_members by blast+
  show ?thesis
    unfolding save_profile_def data_of_object
    by (simp add: Let_def assms dict_item_truthy[OF t(1)] dict_item_truthy[OF t(2)] del: U_simps
          cong: sum.case_cong)
qed

lemma save_profile_falsy:
  "\<not> truthy parsed \<Longrightarrow>
   save_profile py now fault fs parsed = save_profile py now fault fs (JObj [])"
  by (simp add: save_profile_def)

text \<open>
  Claim C3 as the specification states it fails on a body that is not an object: the
  array \<open>[1, 2]\<close> has none of the nine fields, and the handler does not answer 400, the
  call \<open>data.get\<close> raises \<open>AttributeError\<close>.
\<close>

theorem missing_field_rejected_counterexample:
  "save_profile ascii_env sample_now None Map.empty (JArr [JInt 1, JInt 2]) =
     (Inl AttributeError, Map.empty)"
  by (simp add: save_profile_def)

text \<open>
  Claim C3, amended.  For a request body that is an object, and for a body that is absent
  or falsy (\<open>get_json() or {}\<close> makes it the empty object): when a required field is
  absent or holds the empty text, the handler answers 400 with the message
  \<open>Missing fields:\<close> followed by the missing field names, that field among them, and the
  storage is the one it was given.
\<close>

theorem missing_field_rejected:
  assumes "parsed = JObj kvs \<or> (\<not> truthy parsed \<and> kvs = [])"
    and "k \<in> set required"
    and "dict_lookup kvs k = None \<or> dict_lookup kvs k = Some (JStr [])"
  shows "save_profile py now fault fs parsed =
           (Inr \<lparr> status_code = 400,
                  body = [(''status'', U ''error''),
                          (''message'', U ''Missing fields: '' @ join (U '', '') (missing_fields kvs))] \<rparr>,
            fs) \<and>
         k \<in> set (missing_fields kvs) \<and>
         missing_fields kvs = filter (\<lambda>k. dict_lookup kvs k = None \<or> \<not> truthy (dict_get kvs k)) required"
proof -
  from assms(1) have p: "save_profile py now fault fs parsed = save_profile py now fault fs (JObj kvs)"
  proof
    assume "parsed = JObj kvs"
    then show ?thesis by simp
  next
    assume "\<not> truthy parsed \<and> kvs = []"
    then show ?thesis using save_profile_falsy[of parsed py now fault fs] by simp
  qed
  from assms(3) have "\<not> truthy (dict_get kvs k)"
    by (auto simp: dict_get_def)
  with assms(2) have k: "k \<in> set (missing_fields kvs)"
    by (simp add: in_missing_fields)
  then have "missing_fields kvs \<noteq> []" by auto
  then have "save_profile py now fault fs (JObj kvs) =
     (Inr (error_response 400 (U ''Missing fields: '' @ join (U '', '') (missing_fields kvs))), fs)"
    by (rule save_profile_missing)
  moreover have "missing_fields kvs =
      filter (\<lambda>k. dict_lookup kvs k = None \<or> \<not> truthy (dict_get kvs k)) required"
    unfolding missing_fields_def
    by (rule filter_cong) (auto simp: dict_get_def)
  ultimately show ?thesis using k unfolding p by (simp add: error_response_def)
qed

lemma map_of_rev_filter:
  "map_of (rev (filter (\<lambda>kv. fst kv \<noteq> k) kvs)) k' = (if k' = k then None else map_of (rev kvs) k')"
  by (induction kvs) (auto simp: map_add_def split: option.splits)

lemma dict_get_removed:
  "dict_get (filter (\<lambda>kv. fst kv \<noteq> k) kvs) k' = (if k' = k then JNull else dict_get kvs k')"
  by (simp add: dict_get_def dict_lookup_def map_of_rev_filter)

text \<open>
  Claim C9.  A required field that is present with a falsy value (the number 0, \<open>false\<close>,
  \<open>null\<close>) is reported missing: the answer is the 400 of claim C3, the storage is
  unchanged, and the whole result is the one of the same request with the field removed.
\<close>

theorem falsy_value_counts_as_missing:
  assumes "k \<in> set required" and "dict_lookup kvs k = Some v" and "\<not> truthy v"
  shows "save_profile py now fault fs (JObj kvs) =
           (Inr \<lparr> status_code = 400,
                  body = [(''status'', U ''error''),
                          (''message'', U ''Missing fields: '' @ join (U '', '') (missing_fields kvs))] \<rparr>,
            fs) \<and>
         k \<in> set (missing_fields kvs) \<and>
         dict_lookup (filter (\<lambda>kv. fst kv \<noteq> k) kvs) k = None \<and>
         save_profile py now fault fs (JObj kvs) =
           save_profile py now fault fs (JObj (filter (\<lambda>kv. fst kv \<noteq> k) kvs))"
proof -
  let ?kvs' = "filter (\<lambda>kv. fst kv \<noteq> k) kvs"
  from assms(2,3) have f: "\<not> truthy (dict_get kvs k)"
    by (simp add: dict_get_def)
  with assms(1) have k: "k \<in> set (missing_fields kvs)"
    by (simp add: in_missing_fields)
  then have ne: "missing_fields kvs \<noteq> []" by auto
  have same: "missing_fields ?kvs' = missing_fields kvs"
    unfolding missing_fields_def
    by (rule filter_cong) (use f in \<open>auto simp: dict_get_removed\<close>)
  have absent: "dict_lookup ?kvs' k = None"
    by (simp add: dict_lookup_def map_of_rev_filter)
  from ne same have ne': "missing_fields ?kvs' \<noteq> []" by simp
  show ?thesis
    using k absent
    by (simp add: save_profile_missing[OF ne] save_profile_missing[OF ne'] same error_response_def)
qed

text \<open>
  Claim C4.  For a payload that passes the required-field check and whose session is a
  text: when the session splits at hyphens into exactly two parts that \<open>int\<close> accepts and
  the second is not greater than the first, the handler answers 400 and leaves the
  storage as it was; when it does not split into two parts that \<open>int\<close> accepts, the check
  is skipped and the result is the one of filename derivation followed by the append.
\<close>

theorem session_range_check:
  "(missing_fields kvs = [] \<and> dict_get kvs (U ''session'') = JStr s \<and>
    split_on 45 s = [a, b] \<and> py_int py a = Some s0 \<and> py_int py b = Some s1 \<and> s1 \<le> s0 \<longrightarrow>
      save_profile py now fault fs (JObj kvs) =
        (Inr \<lparr> status_code = 400,
               body = [(''status'', U ''error''),
                       (''message'', U ''Session end year must be after start year.'')] \<rparr>,
         fs)) \<and>
   (missing_fields kvs = [] \<and> dict_get kvs (U ''session'') = JStr s \<and>
    \<not> (\<exists>a b. split_on 45 s = [a, b] \<and> py_int py a \<noteq> None \<and> py_int py b \<noteq> None) \<and>
    dict_get kvs (U ''stream'') = JStr st \<longrightarrow>
      save_profile py now fault fs (JObj kvs) =
        (let filename = make_filename py st (py_str py (dict_get kvs (U ''year''))) s
         in case append_csv py fault fs filename (fs filename = None) headers (data_row py now kvs) of
              (Inl e, fs') \<Rightarrow> (Inr (error_response 500 (U ''Could not write CSV: '' @ e)), fs')
            | (Inr u, fs') \<Rightarrow> (Inr (success_response filename), fs')))"
proof (intro conjI impI)
  assume h: "missing_fields kvs = [] \<and> dict_get kvs (U ''session'') = JStr s \<and>
    split_on 45 s = [a, b] \<and> py_int py a = Some s0 \<and> py_int py b = Some s1 \<and> s1 \<le> s0"
  then have "session_out_of_order py (dict_get kvs (U ''session''))"
    by (simp add: session_out_of_order_def)
  with h show "save_profile py now fault fs (JObj kvs) =
        (Inr \<lparr> status_code = 400,
               body = [(''status'', U ''error''),
                       (''message'', U ''Session end year must be after start year.'')] \<rparr>,
         fs)"
    by (simp add: save_profile_valid error_response_def)
next
  assume h: "missing_fields kvs = [] \<and> dict_get kvs (U ''session'') = JStr s \<and>
    \<not> (\<exists>a b. split_on 45 s = [a, b] \<and> py_int py a \<noteq> None \<and> py_int py b \<noteq> None) \<and>
    dict_get kvs (U ''stream'') = JStr st"
  have "\<not> session_out_of_order py (JStr s)"
  proof
    assume o: "session_out_of_order py (JStr s)"
    then have "length (split_on 45 s) = 2"
      by (simp add: session_out_of_order_def Let_def split: if_splits)
    then obtain a b where ab: "split_on 45 s = [a, b]"
      by (auto simp: length_two_iff)
    with o have "py_int py a \<noteq> None \<and> py_int py b \<noteq> None"
      by (auto simp: session_out_of_order_def split: option.splits)
    with ab h show False by blast
  qed
  with h show "save_profile py now fault fs (JObj kvs) =
        (let filename = make_filename py st (py_str py (dict_get kvs (U ''year''))) s
         in case append_csv py fault fs filename (fs filename = None) headers (data_row py now kvs) of
              (Inl e, fs') \<Rightarrow> (Inr (error_response 500 (U ''Could not write CSV: '' @ e)), fs')
            | (Inr u, fs') \<Rightarrow> (Inr (success_response filename), fs'))"
    by (simp add: save_profile_valid make_filename_call_def Let_def)
qed

lemmas lookup_defs = dict_get_def dict_lookup_def missing_fields_def required_def

text \<open>
  The specification's example: the payload without \<open>email\<close> is answered by
  \<open>Missing fields: email\<close>, and the empty storage stays empty; so is the payload whose
  \<open>email\<close> is the empty text; an absent body is answered by the list of all nine names.
\<close>

theorem missing_field_rejected_witness:
  "U ''email'' \<in> set required \<and>
   dict_lookup (filter (\<lambda>kv. fst kv \<noteq> U ''email'') (sample_fields (U ''CS'') (U ''2023-2026'')))
     (U ''email'') = None \<and>
   save_profile ascii_env sample_now None Map.empty
     (JObj (filter (\<lambda>kv. fst kv \<noteq> U ''email'') (sample_fields (U ''CS'') (U ''2023-2026'')))) =
     (Inr \<lparr> status_code = 400,
            body = [(''status'', U ''error''), (''message'', U ''Missing fields: email'')] \<rparr>,
      Map.empty) \<and>
   dict_lookup (sample_fields (U ''CS'') (U ''2023-2026'') @ [(U ''email'', JStr [])])
     (U ''email'') = Some (JStr []) \<and>
   save_profile ascii_env sample_now None Map.empty
     (JObj (sample_fields (U ''CS'') (U ''2023-2026'') @ [(U ''email'', JStr [])])) =
     (Inr \<lparr> status_code = 400,
            body = [(''status'', U ''error''), (''message'', U ''Missing fields: email'')] \<rparr>,
      Map.empty) \<and>
   \<not> truthy JNull \<and>
   save_profile ascii_env sample_now None Map.empty JNull =
     (Inr \<lparr> status_code = 400,
            body = [(''status'', U ''error''),
                    (''message'', U ''Missing fields: name, email, roll, birthdate, registration, stream, session, year, course'')] \<rparr>,
      Map.empty)"
proof -
  let ?kvs = "filter (\<lambda>kv. fst kv \<noteq> U ''email'') (sample_fields (U ''CS'') (U ''2023-2026''))"
  let ?kvs2 = "sample_fields (U ''CS'') (U ''2023-2026'') @ [(U ''email'', JStr [])]"
  have 1: "U ''email'' \<in> set required" by (simp add: required_def)
  have 2: "dict_lookup ?kvs (U ''email'') = None"
    by (simp add: sample_fields_def dict_lookup_def)
  have 3: "missing_fields ?kvs = [U ''email'']"
    by (simp add: sample_fields_def lookup_defs)
  have 4: "dict_lookup ?kvs2 (U ''email'') = Some (JStr [])"
    by (simp add: sample_fields_def dict_lookup_def)
  have 5: "missing_fields ?kvs2 = [U ''email'']"
    by (simp add: sample_fields_def lookup_defs)
  have 6: "dict_lookup [] (U ''email'') = None"
    by (simp add: dict_lookup_def)
  have 7: "missing_fields [] = required"
    by (simp add: lookup_defs)
  have 8: "\<not> truthy JNull \<and> ([] :: (pystr \<times> json) list) = []" by simp
  have a: "save_profile ascii_env sample_now None Map.empty (JObj ?kvs) =
     (Inr \<lparr> status_code = 400,
            body = [(''status'', U ''error''), (''message'', U ''Missing fields: email'')] \<rparr>,
      Map.empty)"
    using missing_field_rejected[OF disjI1[OF refl] 1 disjI1[OF 2],
        of ascii_env sample_now None Map.empty]
    unfolding 3 by simp
  have b: "save_profile ascii_env sample_now None Map.empty (JObj ?kvs2) =
     (Inr \<lparr> status_code = 400,
            body = [(''status'', U ''error''), (''message'', U ''Missing fields: email'')] \<rparr>,
      Map.empty)"
    using missing_field_rejected[OF disjI1[OF refl] 1 disjI2[OF 4],
        of ascii_env sample_now None Map.empty]
    unfolding 5 by simp
  have c: "save_profile ascii_env sample_now None Map.empty JNull =
     (Inr \<lparr> status_code = 400,
            body = [(''status'', U ''error''),
                    (''message'', U ''Missing fields: name, email, roll, birthdate, registration, stream, session, year, course'')] \<rparr>,
      Map.empty)"
    using missing_field_rejected[OF disjI2[OF 8] 1 disjI1[OF 6],
        of ascii_env sample_now None Map.empty]
    unfolding 7 by (simp add: required_def)
  from 1 2 4 a b c show ?thesis by (simp only: truthy.simps simp_thms)
qed

text \<open>
  A payload whose \<open>roll\<close> is the number 0.
\<close>

theorem falsy_value_counts_as_missing_witness:
  "U ''roll'' \<in> set required \<and>
   dict_lookup (sample_fields (U ''CS'') (U ''2023-2026'') @ [(U ''roll'', JInt 0)]) (U ''roll'')
     = Some (JInt 0) \<and>
   \<not> truthy (JInt 0) \<and> \<not> truthy (JBool False) \<and> \<not> truthy JNull \<and>
   save_profile ascii_env sample_now None Map.empty
     (JObj (sample_fields (U ''CS'') (U ''2023-2026'') @ [(U ''roll'', JInt 0)])) =
     (Inr \<lparr> status_code = 400,
            body = [(''status'', U ''error''), (''message'', U ''Missing fields: roll'')] \<rparr>,
      Map.empty)"
proof -
  let ?kvs = "sample_fields (U ''CS'') (U ''2023-2026'') @ [(U ''roll'', JInt 0)]"
  have 1: "U ''roll'' \<in> set required" by (simp add: required_def)
  have 2: "dict_lookup ?kvs (U ''roll'') = Some (JInt 0)"
    by (simp add: sample_fields_def dict_lookup_def)
  have 3: "\<not> truthy (JInt 0)" by simp
  have 4: "missing_fields ?kvs = [U ''roll'']"
    by (simp add: sample_fields_def lookup_defs)
  from falsy_value_counts_as_missing[OF 1 2 3, of ascii_env sample_now None Map.empty] 1 2
  show ?thesis unfolding 4 by simp
qed

lemmas int_defs = py_int_def to_ascii_char_def is_py_space_def int_body_ok_def
  is_ascii_digit_def over_digit_limit_def digits_value_def

lemma py_int_examples:
  "py_int py (U ''2025'') = Some 2025" "py_int py (U ''2023'') = Some 2023"
  "py_int py (U ''abc'') = None"
  by (simp_all add: int_defs)

text \<open>
  The specification's examples: session \<open>2025-2023\<close> is rejected; session \<open>abc-def\<close> is
  accepted and written to the file derived from it.
\<close>

theorem session_range_check_witness:
  "save_profile ascii_env sample_now None Map.empty (JObj (sample_fields (U ''CS'') (U ''2025-2023'')))
     = (Inr \<lparr> status_code = 400,
              body = [(''status'', U ''error''),
                      (''message'', U ''Session end year must be after start year.'')] \<rparr>,
        Map.empty) \<and>
   fst (save_profile ascii_env sample_now None Map.empty
          (JObj (sample_fields (U ''CS'') (U ''abc-def''))))
     = Inr \<lparr> status_code = 200,
             body = [(''status'', U ''success''), (''file'', U ''CS_2nd_-.csv'')] \<rparr> \<and>
   snd (save_profile ascii_env sample_now None Map.empty
          (JObj (sample_fields (U ''CS'') (U ''abc-def'')))) (U ''CS_2nd_-.csv'')
     = Some (writerow headers @
             writerow (data_row ascii_env sample_now (sample_fields (U ''CS'') (U ''abc-def''))))"
proof -
  let ?bad = "sample_fields (U ''CS'') (U ''2025-2023'')"
  let ?odd = "sample_fields (U ''CS'') (U ''abc-def'')"
  have m: "missing_fields ?bad = []" "missing_fields ?odd = []"
    by (simp_all add: sample_fields_def lookup_defs)
  have s: "dict_get ?bad (U ''session'') = JStr (U ''2025-2023'')"
    "dict_get ?odd (U ''session'') = JStr (U ''abc-def'')"
    "dict_get ?odd (U ''stream'') = JStr (U ''CS'')"
    "dict_get ?odd (U ''year'') = JStr (U ''2'')"
    by (simp_all add: sample_fields_def dict_get_def dict_lookup_def)
  have sp: "split_on 45 (U ''2025-2023'') = [U ''2025'', U ''2023'']"
    "split_on 45 (U ''abc-def'') = [U ''abc'', U ''def'']"
    by simp_all
  have no: "\<not> (\<exists>a b. split_on 45 (U ''abc-def'') = [a, b] \<and> py_int ascii_env a \<noteq> None
              \<and> py_int ascii_env b \<noteq> None)"
    unfolding sp using py_int_examples(3)[of ascii_env] by auto
  have f: "make_filename ascii_env (U ''CS'') (U ''2'') (U ''abc-def'') = U ''CS_2nd_-.csv''"
    by (simp add: make_filename_def sanitize_stream_def session_filename_piece_def ordinal_of_def
          ORDINAL_def re_sub_not_def replace_char_def upper_def upper_char_def Let_def
          char_class_defs)
  have enc: "utf8_encodable (writerow (data_row ascii_env sample_now ?odd))"
    by (simp add: utf8_encodable_def writerow_def data_row_def sample_fields_def dict_get_def
          dict_lookup_def csv_cell_def quote_field_def needs_quote_def double_quotes_def
          isoformat_def pad2_def pad4_def pad6_def digit_at_def sample_now_def is_surrogate_def)
  have a: "save_profile ascii_env sample_now None Map.empty (JObj ?bad)
     = (Inr \<lparr> status_code = 400,
              body = [(''status'', U ''error''),
                      (''message'', U ''Session end year must be after start year.'')] \<rparr>,
        Map.empty)"
    using session_range_check[where kvs = ?bad and s = "U ''2025-2023''" and a = "U ''2025''"
        and b = "U ''2023''" and py = ascii_env and ?s0.0 = 2025 and ?s1.0 = 2023
        and now = sample_now and fault = None and fs = Map.empty]
      m(1) s(1) sp(1) py_int_examples(1,2)[of ascii_env]
    by (simp del: U_simps)
  have b: "save_profile ascii_env sample_now None Map.empty (JObj ?odd)
     = (Inr (success_response (U ''CS_2nd_-.csv'')),
        Map.empty(U ''CS_2nd_-.csv'' \<mapsto>
           writerow headers @ writerow (data_row ascii_env sample_now ?odd)))"
    using session_range_check[where kvs = ?odd and s = "U ''abc-def''" and py = ascii_env
        and st = "U ''CS''" and now = sample_now and fault = None and fs = Map.empty]
      m(2) s(2,3,4) no enc
    by (simp add: f append_csv_def file_text_def Let_def del: U_simps)
  show ?thesis unfolding a b by (simp add: success_response_def)
qed

subsection \<open>The reader inverts the writer\<close>

lemma needs_quote_Cons:
  "needs_quote (c # f) \<longleftrightarrow> c = 44 \<or> c = 34 \<or> c = 13 \<or> c = 10 \<or> needs_quote f"
  by (auto simp: needs_quote_def)

lemma in_field_plain:
  "\<not> needs_quote f \<Longrightarrow> csv_rows IN_FIELD fld flds (f @ rest) = csv_rows IN_FIELD (fld @ f) flds rest"
  by (induction f arbitrary: fld) (simp_all add: needs_quote_Cons is_newline_def)

lemma start_field_plain:
  assumes "\<not> needs_quote f" and "f \<noteq> []"
    and "st = START_RECORD \<or> st = START_FIELD"
  shows "csv_rows st [] flds (f @ rest) = csv_rows IN_FIELD f flds rest"
proof -
  from assms(2) obtain c g where f: "f = c # g" by (cases f) auto
  with assms(1) have c: "c \<noteq> 44" "c \<noteq> 34" "c \<noteq> 13" "c \<noteq> 10" and g: "\<not> needs_quote g"
    by (simp_all add: needs_quote_Cons)
  from assms(3) c have "csv_rows st [] flds (c # g @ rest) = csv_rows IN_FIELD [c] flds (g @ rest)"
    by (auto simp: is_newline_def)
  with g show ?thesis by (simp add: f in_field_plain)
qed

lemma in_quoted_field:
  "csv_rows IN_QUOTED_FIELD fld flds (double_quotes f @ 34 # rest) =
   csv_rows QUOTE_IN_QUOTED_FIELD (fld @ f) flds rest"
  by (induction f arbitrary: fld) (simp_all add: double_quotes_def is_newline_def)

lemma start_field_quoted:
  assumes "st = START_RECORD \<or> st = START_FIELD"
  shows "csv_rows st [] flds ([34] @ double_quotes f @ [34] @ rest) =
         csv_rows QUOTE_IN_QUOTED_FIELD f flds rest"
  using assms in_quoted_field[of "[]" flds f rest] by (auto simp: is_newline_def)

lemma cell_then_comma:
  "in_cell st \<Longrightarrow> csv_rows st fld flds (44 # rest) = csv_rows START_FIELD [] (flds @ [fld]) rest"
  by (auto simp: in_cell_def is_newline_def)

lemma cell_then_crlf:
  "in_cell st \<Longrightarrow>
   csv_rows st fld flds (13 # 10 # rest) = (flds @ [fld]) # csv_rows START_RECORD [] [] rest"
  by (auto simp: in_cell_def is_newline_def after_newline_def)

declare csv_rows.simps(2) [simp del]

lemma read_cell:
  "\<exists>st. in_cell st \<and>
     csv_rows START_FIELD [] flds (quote_field f @ rest) = csv_rows st f flds rest"
proof (cases "needs_quote f")
  case True
  then show ?thesis
    using start_field_quoted[of START_FIELD flds f rest]
    by (auto simp: quote_field_def in_cell_def)
next
  case False
  show ?thesis
  proof (cases "f = []")
    case True
    with False show ?thesis by (auto simp: quote_field_def in_cell_def)
  next
    case ne: False
    with False show ?thesis
      using start_field_plain[of f START_FIELD flds rest]
      by (auto simp: quote_field_def in_cell_def)
  qed
qed

lemma join_Cons:
  "join sep (x # xs) = x @ (if xs = [] then [] else sep @ join sep xs)"
  by (cases xs) simp_all

lemma read_cells:
  "csv_rows START_FIELD [] flds (join [44] (map quote_field (f # fs)) @ 13 # 10 # rest) =
   (flds @ f # fs) # csv_rows START_RECORD [] [] rest"
proof (induction fs arbitrary: f flds)
  case Nil
  obtain st where "in_cell st"
    "csv_rows START_FIELD [] flds (quote_field f @ 13 # 10 # rest) = csv_rows st f flds (13 # 10 # rest)"
    using read_cell[of flds f "13 # 10 # rest"] by blast
  then show ?case by (simp add: cell_then_crlf join_Cons)
next
  case (Cons g fs)
  let ?tail = "join [44] (map quote_field (g # fs)) @ 13 # 10 # rest"
  obtain st where st: "in_cell st"
    "csv_rows START_FIELD [] flds (quote_field f @ 44 # ?tail) = csv_rows st f flds (44 # ?tail)"
    using read_cell[of flds f "44 # ?tail"] by blast
  have "join [44] (map quote_field (f # g # fs)) @ 13 # 10 # rest = quote_field f @ 44 # ?tail"
    by simp
  then have "csv_rows START_FIELD [] flds (join [44] (map quote_field (f # g # fs)) @ 13 # 10 # rest)
      = csv_rows START_FIELD [] (flds @ [f]) ?tail"
    using st by (simp only: cell_then_comma)
  then show ?case using Cons.IH[of "flds @ [f]" g] by simp
qed

text \<open>A row whose first cell is not empty, as every row of a record file is.\<close>

lemma read_row:
  assumes "f \<noteq> []"
  shows "csv_rows START_RECORD [] [] (writerow (f # fs) @ rest) =
         (f # fs) # csv_rows START_RECORD [] [] rest"
proof -
  have w: "writerow (f # fs) @ rest = join [44] (map quote_field (f # fs)) @ 13 # 10 # rest"
    using assms by (simp add: writerow_def)
  have q: "quote_field f \<noteq> []" using assms by (simp add: quote_field_def)
  then obtain c g where cg: "quote_field f = c # g" by (cases "quote_field f") auto
  have c: "c \<noteq> 10" "c \<noteq> 13" "c \<noteq> 44"
    using cg assms
    by (cases f; auto simp: quote_field_def needs_quote_Cons split: if_splits)+
  have same: "csv_rows START_RECORD [] [] (c # t) = csv_rows START_FIELD [] [] (c # t)" for t
    using c by (simp add: csv_rows.simps(2) is_newline_def)
  have "join [44] (map quote_field (f # fs)) @ 13 # 10 # rest
      = c # (g @ (if fs = [] then [] else 44 # join [44] (map quote_field fs)) @ 13 # 10 # rest)"
    by (simp add: join_Cons cg)
  then have "csv_rows START_RECORD [] [] (join [44] (map quote_field (f # fs)) @ 13 # 10 # rest)
      = csv_rows START_FIELD [] [] (join [44] (map quote_field (f # fs)) @ 13 # 10 # rest)"
    by (simp only: same)
  then show ?thesis unfolding w using read_cells[of "[]" f fs rest] by simp
qed

lemma read_rows:
  "list_all (\<lambda>r. r \<noteq> [] \<and> hd r \<noteq> []) rows \<Longrightarrow>
   csv_read (concat (map writerow rows) @ rest) = rows @ csv_read rest"
proof (induction rows)
  case Nil
  then show ?case by simp
next
  case (Cons r rows)
  then obtain f fs where r: "r = f # fs" "f \<noteq> []" by (cases r) auto
  with Cons show ?case by (simp add: csv_read_def read_row)
qed

lemma csv_read_Nil: "csv_read [] = []"
  by (simp add: csv_read_def)

subsection \<open>Timestamps parse back\<close>

lemma digit_at_digit: "is_ascii_digit (digit_at n i)"
  by (simp add: is_ascii_digit_def digit_at_def)

lemma digit_at_value: "digit_at n i - 48 = (n div 10 ^ i) mod 10"
  by (simp add: digit_at_def)

lemma pad2_value: "n < 100 \<Longrightarrow> digits_value (pad2 n) = n"
  by (simp add: digits_value_def pad2_def digit_at_value)

lemma four_digits: "(n::nat) < 10000 \<Longrightarrow>
     1000 * (n div 1000) + 100 * (n div 100 mod 10) + 10 * (n div 10 mod 10) + n mod 10 = n"
proof -
  have a: "n div 100 = n div 10 div 10" "n div 1000 = n div 10 div 10 div 10"
    by (simp_all add: div_mult2_eq[symmetric])
  have e: "n = 10 * (n div 10) + n mod 10"
    "n div 10 = 10 * (n div 10 div 10) + n div 10 mod 10"
    "n div 10 div 10 = 10 * (n div 10 div 10 div 10) + n div 10 div 10 mod 10"
    by (rule mult_div_mod_eq[symmetric])+
  show ?thesis unfolding a using e by linarith
qed

lemma six_digits: "(n::nat) < 1000000 \<Longrightarrow>
     100000 * (n div 100000) + 10000 * (n div 10000 mod 10) + 1000 * (n div 1000 mod 10) +
     100 * (n div 100 mod 10) + 10 * (n div 10 mod 10) + n mod 10 = n"
proof -
  have a: "n div 100 = n div 10 div 10" "n div 1000 = n div 10 div 10 div 10"
    "n div 10000 = n div 10 div 10 div 10 div 10"
    "n div 100000 = n div 10 div 10 div 10 div 10 div 10"
    by (simp_all add: div_mult2_eq[symmetric])
  have e: "n = 10 * (n div 10) + n mod 10"
    "n div 10 = 10 * (n div 10 div 10) + n div 10 mod 10"
    "n div 10 div 10 = 10 * (n div 10 div 10 div 10) + n div 10 div 10 mod 10"
    "n div 10 div 10 div 10 = 10 * (n div 10 div 10 div 10 div 10) + n div 10 div 10 div 10 mod 10"
    "n div 10 div 10 div 10 div 10 = 10 * (n div 10 div 10 div 10 div 10 div 10)
       + n div 10 div 10 div 10 div 10 mod 10"
    by (rule mult_div_mod_eq[symmetric])+
  show ?thesis unfolding a using e by linarith
qed

lemma pad4_value: "n < 10000 \<Longrightarrow> digits_value (pad4 n) = n"
  by (simp add: digits_value_def pad4_def digit_at_value) (erule four_digits)

lemma pad6_value: "n < 1000000 \<Longrightarrow> digits_value (pad6 n) = n"
  by (simp add: digits_value_def pad6_def digit_at_value) (erule six_digits)

lemma isoformat_parses: "valid_datetime d \<Longrightarrow> parse_iso (isoformat d) = Some d"
proof -
  assume v: "valid_datetime d"
  obtain y mo da h mi se us where d: "d = \<lparr> dt_year = y, dt_month = mo, dt_day = da,
      dt_hour = h, dt_minute = mi, dt_second = se, dt_microsecond = us \<rparr>"
    by (cases d) auto
  from v have b: "y < 10000" "mo < 100" "da < 100" "h < 100" "mi < 100" "se < 100" "us < 1000000"
    by (auto simp: d valid_datetime_def days_in_month_def split: if_splits)
  have sh: "iso_shape (isoformat d)"
    by (simp add: iso_shape_def isoformat_def pad2_def pad4_def pad6_def digit_at_digit)
  have n: "number_at (isoformat d) 0 4 = y" "number_at (isoformat d) 5 2 = mo"
    "number_at (isoformat d) 8 2 = da" "number_at (isoformat d) 11 2 = h"
    "number_at (isoformat d) 14 2 = mi" "number_at (isoformat d) 17 2 = se"
    using b pad2_value pad4_value
    by (simp_all add: d number_at_def isoformat_def pad2_def pad4_def)
  have l: "length (isoformat d) = (if us = 0 then 19 else 26)"
    by (simp add: d isoformat_def pad2_def pad4_def pad6_def)
  have m: "us \<noteq> 0 \<Longrightarrow> number_at (isoformat d) 20 6 = us"
    using b(7) pad6_value by (simp add: d number_at_def isoformat_def pad2_def pad4_def pad6_def)
  have "parse_iso (isoformat d) = (if valid_datetime d then Some d else None)"
    using sh m unfolding parse_iso_def n l by (auto simp: d Let_def)
  with v show ?thesis by simp
qed

lemma isoformat_not_header: "isoformat d \<noteq> U ''timestamp''"
  by (simp add: isoformat_def pad4_def digit_at_def)

lemma isoformat_not_Nil: "isoformat d \<noteq> []"
  by (simp add: isoformat_def pad4_def)

subsection \<open>What a submission does to the storage\<close>

lemma append_csv_Inr:
  assumes "append_csv py fault fs name wh hdr row = (Inr u, fs')"
  shows "fs' = fs(name \<mapsto> file_text fs name @ (if wh then writerow hdr else []) @ writerow row)"
  using assms
  by (auto simp: append_csv_def Let_def split: option.splits io_fault.splits if_splits)

lemma append_csv_ok:
  "utf8_encodable (writerow row) \<Longrightarrow>
   append_csv py None fs name wh hdr row =
     (Inr (), fs(name \<mapsto> file_text fs name @ (if wh then writerow hdr else []) @ writerow row))"
  by (simp add: append_csv_def Let_def)

lemma append_csv_storage:
  "snd (append_csv py fault fs name wh hdr row) = fs \<or>
   (\<exists>x. snd (append_csv py fault fs name wh hdr row) = fs(name \<mapsto> file_text fs name @ x))"
proof -
  let ?head = "if wh then writerow hdr else []"
  let ?r = "snd (append_csv py fault fs name wh hdr row)"
  consider (op) msg where "fault = Some (OpenFails msg)"
    | (enc) "\<forall>msg. fault \<noteq> Some (OpenFails msg)" "\<not> utf8_encodable (writerow row)"
    | (wr) msg n where "fault = Some (WriteFails msg n)" "utf8_encodable (writerow row)"
    | (ok) "fault = None" "utf8_encodable (writerow row)"
    by (cases fault; cases "the fault"; cases "utf8_encodable (writerow row)") auto
  then show ?thesis
  proof cases
    case op
    then show ?thesis by (simp add: append_csv_def)
  next
    case enc
    then have "?r = fs(name \<mapsto> file_text fs name @ ?head)"
      by (cases fault; cases "the fault") (auto simp: append_csv_def Let_def)
    then show ?thesis by blast
  next
    case wr
    then have "?r = fs(name \<mapsto> file_text fs name @ take n (?head @ writerow row))"
      by (simp add: append_csv_def Let_def)
    then show ?thesis by blast
  next
    case ok
    then have "?r = fs(name \<mapsto> file_text fs name @ ?head @ writerow row)"
      by (simp add: append_csv_def Let_def)
    then show ?thesis by blast
  qed
qed

lemma missing_fields_empty_object: "missing_fields [] \<noteq> []"
  by (simp add: missing_fields_def required_def dict_get_def dict_lookup_def)

lemma save_profile_not_object:
  assumes "\<forall>kvs. parsed \<noteq> JObj kvs"
  shows "save_profile py now fault fs parsed =
    (if truthy parsed then (Inl AttributeError, fs)
     else (Inr (error_response 400
            (U ''Missing fields: '' @ join (U '', '') (missing_fields []))), fs))"
proof (cases "truthy parsed")
  case True
  with assms show ?thesis
    by (cases parsed) (simp_all add: save_profile_def)
next
  case False
  then show ?thesis
    using missing_fields_empty_object by (simp add: save_profile_def Let_def del: U_simps)
qed

lemma save_profile_storage:
  "snd (save_profile py now fault fs parsed) = fs \<or>
   (\<exists>name x. snd (save_profile py now fault fs parsed) = fs(name \<mapsto> file_text fs name @ x))"
proof (cases "\<exists>kvs. parsed = JObj kvs")
  case False
  then show ?thesis by (simp add: save_profile_not_object)
next
  case True
  then obtain kvs where p: "parsed = JObj kvs" by blast
  show ?thesis
  proof (cases "missing_fields kvs = []")
    case False
    then show ?thesis by (simp add: p save_profile_missing)
  next
    case m: True
    let ?call = "make_filename_call py (dict_get kvs (U ''stream''))
                   (py_str py (dict_get kvs (U ''year''))) (dict_get kvs (U ''session''))"
    show ?thesis
    proof (cases "session_out_of_order py (dict_get kvs (U ''session''))")
      case True
      then show ?thesis by (simp add: p save_profile_valid[OF m] del: U_simps)
    next
      case o: False
      show ?thesis
      proof (cases ?call)
        case (Inl e)
        with o show ?thesis by (simp add: p save_profile_valid[OF m] del: U_simps)
      next
        case (Inr name)
        let ?a = "append_csv py fault fs name (fs name = None) headers (data_row py now kvs)"
        have "snd (save_profile py now fault fs parsed) = snd ?a"
          using o Inr by (simp add: p save_profile_valid[OF m] split: prod.splits sum.splits
              del: U_simps)
        then show ?thesis
          using append_csv_storage[of py fault fs name "fs name = None" headers
              "data_row py now kvs"] by auto
      qed
    qed
  qed
qed

lemma save_profile_success:
  assumes "save_profile py now fault fs parsed = (Inr r, fs')" and "status_code r = 200"
  shows "\<exists>kvs name. parsed = JObj kvs \<and> missing_fields kvs = [] \<and>
           make_filename_call py (dict_get kvs (U ''stream''))
             (py_str py (dict_get kvs (U ''year''))) (dict_get kvs (U ''session'')) = Inr name \<and>
           r = success_response name \<and>
           fs' = fs(name \<mapsto> file_text fs name @
                   (if fs name = None then writerow headers else []) @
                   writerow (data_row py now kvs))"
proof (cases "\<exists>kvs. parsed = JObj kvs")
  case False
  with assms show ?thesis
    by (auto simp: save_profile_not_object error_response_def split: if_splits)
next
  case True
  then obtain kvs where p: "parsed = JObj kvs" by blast
  show ?thesis
  proof (cases "missing_fields kvs = []")
    case False
    with assms show ?thesis by (auto simp: p save_profile_missing error_response_def)
  next
    case m: True
    let ?call = "make_filename_call py (dict_get kvs (U ''stream''))
                   (py_str py (dict_get kvs (U ''year''))) (dict_get kvs (U ''session''))"
    show ?thesis
    proof (cases "session_out_of_order py (dict_get kvs (U ''session''))")
      case True
      with assms show ?thesis
        by (auto simp: p save_profile_valid[OF m] error_response_def simp del: U_simps)
    next
      case o: False
      show ?thesis
      proof (cases ?call)
        case (Inl e)
        with o assms show ?thesis by (simp add: p save_profile_valid[OF m] del: U_simps)
      next
        case (Inr name)
        obtain res fs2 where a: "append_csv py fault fs name (fs name = None) headers
            (data_row py now kvs) = (res, fs2)"
          by (cases "append_csv py fault fs name (fs name = None) headers (data_row py now kvs)")
        show ?thesis
        proof (cases res)
          case (Inl e)
          with o Inr a assms show ?thesis
            by (auto simp: p save_profile_valid[OF m] error_response_def simp del: U_simps)
        next
          case u: (Inr u)
          with o Inr a assms have "r = success_response name" "fs' = fs2"
            by (auto simp: p save_profile_valid[OF m] simp del: U_simps)
          with append_csv_Inr[OF a[unfolded u]] p m Inr show ?thesis by auto
        qed
      qed
    qed
  qed
qed

lemma save_profile_ok:
  assumes "missing_fields kvs = []"
    and "\<not> session_out_of_order py (JStr se)"
    and "dict_get kvs (U ''stream'') = JStr st"
    and "dict_get kvs (U ''session'') = JStr se"
    and "utf8_encodable (writerow (data_row py now kvs))"
    and "name = make_filename py st (py_str py (dict_get kvs (U ''year''))) se"
  shows "save_profile py now None fs (JObj kvs) =
    (Inr (success_response name),
     fs(name \<mapsto> file_text fs name @ (if fs name = None then writerow headers else []) @
                 writerow (data_row py now kvs)))"
  using assms
  by (simp add: save_profile_valid make_filename_call_def append_csv_ok del: U_simps)

subsection \<open>Header once, append only\<close>

lemma data_row_not_headers: "data_row py now kvs \<noteq> headers"
  using isoformat_not_header[of now] by (simp add: data_row_def headers_def del: U_simps)

lemma data_row_cells: "data_row py now kvs \<noteq> []" "hd (data_row py now kvs) \<noteq> []"
  by (simp_all add: data_row_def isoformat_not_Nil)

lemma headers_cells: "headers \<noteq> []" "hd headers \<noteq> []"
  by (simp_all add: headers_def)

lemma writerow_headers: "writerow headers = header_line @ [13, 10]"
  by (simp add: writerow_def headers_def header_line_def quote_field_def needs_quote_def)

lemma success_keeps_file_ok:
  assumes "record_file_ok fs name"
    and "save_profile py now fault fs parsed = (Inr r, fs')" and "status_code r = 200"
  shows "record_file_ok fs' name"
proof -
  from save_profile_success[OF assms(2,3)] obtain kvs target where
    fs': "fs' = fs(target \<mapsto> file_text fs target @
                   (if fs target = None then writerow headers else []) @
                   writerow (data_row py now kvs))"
    by blast
  let ?row = "data_row py now kvs"
  show ?thesis
  proof (cases "target = name")
    case False
    with assms(1) show ?thesis by (simp add: fs' record_file_ok_def)
  next
    case True
    show ?thesis
    proof (cases "fs name")
      case None
      then have "fs' name = Some (concat (map writerow (headers # [?row])))"
        by (simp add: fs' True file_text_def)
      moreover have "headers \<notin> set [?row]"
        using data_row_not_headers[of py now kvs] by auto
      moreover have "list_all (\<lambda>row. row \<noteq> [] \<and> hd row \<noteq> []) [?row]"
        by (simp add: data_row_cells)
      moreover have "[?row] \<noteq> []" by simp
      ultimately show ?thesis unfolding record_file_ok_def by blast
    next
      case (Some old)
      with assms(1) obtain rows where rows: "rows \<noteq> []" "headers \<notin> set rows"
        "list_all (\<lambda>row. row \<noteq> [] \<and> hd row \<noteq> []) rows"
        "old = concat (map writerow (headers # rows))"
        by (auto simp: record_file_ok_def)
      have "fs' name = Some (concat (map writerow (headers # (rows @ [?row]))))"
        by (simp add: fs' True file_text_def Some rows(4))
      moreover have "headers \<notin> set (rows @ [?row])"
        using rows(2) data_row_not_headers[of py now kvs] by auto
      moreover have "list_all (\<lambda>row. row \<noteq> [] \<and> hd row \<noteq> []) (rows @ [?row])"
        using rows(3) by (simp add: data_row_cells)
      moreover have "rows @ [?row] \<noteq> []" by simp
      ultimately show ?thesis unfolding record_file_ok_def by blast
    qed
  qed
qed

lemma run_keeps_file_ok:
  "record_file_ok fs name \<Longrightarrow> all_succeed py fs reqs \<Longrightarrow> record_file_ok (run py fs reqs) name"
proof (induction reqs arbitrary: fs)
  case Nil
  then show ?case by simp
next
  case (Cons q reqs)
  obtain now fault parsed where q: "q = (now, fault, parsed)" by (cases q) auto
  obtain res fs' where s: "save_profile py now fault fs parsed = (res, fs')"
    by (cases "save_profile py now fault fs parsed")
  from Cons.prems(2) have ok: "is_success res" and rest: "all_succeed py fs' reqs"
    by (simp_all add: q s)
  from ok obtain r where r: "res = Inr r" "status_code r = 200"
    by (cases res) (auto simp: is_success_def)
  have "record_file_ok fs' name"
    using success_keeps_file_ok[OF Cons.prems(1) s[unfolded r(1)] r(2)] .
  from Cons.IH[OF this rest] show ?case by (simp add: q s)
qed

lemma save_profile_extends:
  assumes "fs name = Some old"
  shows "\<exists>more. snd (save_profile py now fault fs parsed) name = Some (old @ more)"
proof -
  from save_profile_storage[of py now fault fs parsed]
  consider "snd (save_profile py now fault fs parsed) = fs"
    | target x where "snd (save_profile py now fault fs parsed)
        = fs(target \<mapsto> file_text fs target @ x)"
    by blast
  then show ?thesis
  proof cases
    case 1
    with assms show ?thesis by simp
  next
    case 2
    with assms show ?thesis by (cases "target = name") (simp_all add: file_text_def)
  qed
qed

lemma run_extends:
  "fs name = Some old \<Longrightarrow> \<exists>more. run py fs reqs name = Some (old @ more)"
proof (induction reqs arbitrary: fs old)
  case Nil
  then show ?case by simp
next
  case (Cons q reqs)
  obtain now fault parsed where q: "q = (now, fault, parsed)" by (cases q) auto
  from save_profile_extends[where fs = fs and name = name and old = old and py = py
      and now = now and fault = fault and parsed = parsed] Cons.prems obtain m where
    m: "snd (save_profile py now fault fs parsed) name = Some (old @ m)" by blast
  from Cons.IH[where fs = "snd (save_profile py now fault fs parsed)" and old = "old @ m"] m
  obtain m' where
    "run py (snd (save_profile py now fault fs parsed)) reqs name = Some ((old @ m) @ m')"
    by blast
  then show ?case by (simp add: q)
qed

text \<open>
  Claim C2, amended.  A successful submission changes one file only: a file that did not
  exist becomes the header row followed by the data row, an existing file becomes its
  previous text followed by the data row, and the text added for the data row reads back
  as that one row.  The header row is the line
  \<open>timestamp,name,email,roll,birthdate,registration,stream,session,year,course\<close>.  Hence a
  file that did not exist before a sequence of successful submissions is afterwards still
  absent, or its text begins with that line and reads back as the header row followed by
  data rows, none of which is the header; and whatever a sequence of submissions does,
  the previous text of a file remains the beginning of its text.
\<close>

theorem header_once:
  "(save_profile py now fault fs parsed = (Inr r, fs') \<and> status_code r = 200 \<longrightarrow>
      (\<exists>kvs name. parsed = JObj kvs \<and> r = success_response name \<and>
         fs' = fs(name \<mapsto>
                 (case fs name of
                    None \<Rightarrow> writerow headers @ writerow (data_row py now kvs)
                  | Some old \<Rightarrow> old @ writerow (data_row py now kvs))) \<and>
         csv_read (writerow (data_row py now kvs)) = [data_row py now kvs])) \<and>
   writerow headers =
     U ''timestamp,name,email,roll,birthdate,registration,stream,session,year,course'' @ [13, 10] \<and>
   (fs name = None \<and> all_succeed py fs reqs \<longrightarrow>
      run py fs reqs name = None \<or>
      (\<exists>rows content. rows \<noteq> [] \<and> headers \<notin> set rows \<and>
         run py fs reqs name = Some content \<and>
         content =
           U ''timestamp,name,email,roll,birthdate,registration,stream,session,year,course'' @
           [13, 10] @ concat (map writerow rows) \<and>
         csv_read content = headers # rows)) \<and>
   (st f = Some old \<longrightarrow> (\<exists>more. run py st rs f = Some (old @ more)))"
proof (intro conjI impI)
  assume "save_profile py now fault fs parsed = (Inr r, fs') \<and> status_code r = 200"
  then obtain kvs name where k: "parsed = JObj kvs" "r = success_response name"
    "fs' = fs(name \<mapsto> file_text fs name @
                   (if fs name = None then writerow headers else []) @
                   writerow (data_row py now kvs))"
    using save_profile_success[of py now fault fs parsed r fs'] by blast
  have "fs' = fs(name \<mapsto>
                 (case fs name of
                    None \<Rightarrow> writerow headers @ writerow (data_row py now kvs)
                  | Some old \<Rightarrow> old @ writerow (data_row py now kvs)))"
    unfolding k(3) by (cases "fs name") (simp_all add: file_text_def)
  moreover have "csv_read (writerow (data_row py now kvs)) = [data_row py now kvs]"
    using read_rows[of "[data_row py now kvs]" "[]"] by (simp add: data_row_cells csv_read_Nil)
  ultimately show "\<exists>kvs name. parsed = JObj kvs \<and> r = success_response name \<and>
         fs' = fs(name \<mapsto>
                 (case fs name of
                    None \<Rightarrow> writerow headers @ writerow (data_row py now kvs)
                  | Some old \<Rightarrow> old @ writerow (data_row py now kvs))) \<and>
         csv_read (writerow (data_row py now kvs)) = [data_row py now kvs]"
    using k(1,2) by blast
next
  show "writerow headers =
     U ''timestamp,name,email,roll,birthdate,registration,stream,session,year,course'' @ [13, 10]"
    using writerow_headers by (simp only: header_line_def)
next
  assume h: "fs name = None \<and> all_succeed py fs reqs"
  then have "record_file_ok fs name" by (simp add: record_file_ok_def)
  with h have "record_file_ok (run py fs reqs) name" by (simp add: run_keeps_file_ok)
  then have d: "run py fs reqs name = None \<or>
      (\<exists>rows. rows \<noteq> [] \<and> headers \<notin> set rows \<and>
         list_all (\<lambda>row. row \<noteq> [] \<and> hd row \<noteq> []) rows \<and>
         run py fs reqs name = Some (concat (map writerow (headers # rows))))"
    unfolding record_file_ok_def .
  show "run py fs reqs name = None \<or>
      (\<exists>rows content. rows \<noteq> [] \<and> headers \<notin> set rows \<and>
         run py fs reqs name = Some content \<and>
         content =
           U ''timestamp,name,email,roll,birthdate,registration,stream,session,year,course'' @
           [13, 10] @ concat (map writerow rows) \<and>
         csv_read content = headers # rows)"
    using d
  proof (elim disjE exE conjE)
    assume "run py fs reqs name = None"
    then show ?thesis by (rule disjI1)
  next
    fix rows
    assume r: "rows \<noteq> []" "headers \<notin> set rows"
      "list_all (\<lambda>row. row \<noteq> [] \<and> hd row \<noteq> []) rows"
      "run py fs reqs name = Some (concat (map writerow (headers # rows)))"
    let ?content = "concat (map writerow (headers # rows))"
    have t: "?content =
           U ''timestamp,name,email,roll,birthdate,registration,stream,session,year,course'' @
           [13, 10] @ concat (map writerow rows)"
      using writerow_headers by (simp add: header_line_def del: U_simps)
    have c: "csv_read ?content = headers # rows"
      using read_rows[of "headers # rows" "[]"] r(3)
      by (simp add: headers_cells csv_read_Nil)
    show ?thesis
      by (rule disjI2, rule exI[of _ rows], rule exI[of _ ?content])
         (intro conjI r(1) r(2) r(4) t c)
  qed
next
  assume "st f = Some old"
  then show "\<exists>more. run py st rs f = Some (old @ more)" by (rule run_extends)
qed

subsection \<open>Rows read back\<close>

lemma data_row_texts:
  assumes "map (dict_get kvs) required = map JStr vals"
  shows "data_row py now kvs = isoformat now # vals"
proof -
  have "map (\<lambda>k. csv_cell py (dict_get kvs k)) required = map (csv_cell py) (map JStr vals)"
    unfolding assms[symmetric] by simp
  also have "\<dots> = vals" by (simp add: csv_cell_def o_def)
  finally show ?thesis by (simp add: data_row_def required_def del: U_simps)
qed

lemma data_row_cells_of:
  "data_row py now kvs = isoformat now # map (\<lambda>k. csv_cell py (dict_get kvs k)) required"
  by (simp add: data_row_def required_def del: U_simps)

text \<open>
  Claim C8, amended.  After a successful submission the derived file ends with the
  encoding of one row: the timestamp followed by nine cells in the order name, email,
  roll, birthdate, registration, stream, session, year, course, each cell the text
  \<open>str\<close> gives the submitted value: a text is its own cell, an integer its decimal
  digits, a boolean \<open>True\<close> or \<open>False\<close>.  Reading that encoding back gives the row; a new
  file reads back as the header and the row, a file of earlier rows as those rows and the
  row; and the timestamp parses back to the clock reading.
\<close>

theorem row_round_trip:
  assumes "save_profile py now fault fs (JObj kvs) = (Inr r, fs')"
    and "status_code r = 200"
    and "valid_datetime now"
  shows "\<exists>name content cells.
           r = success_response name \<and> fs' name = Some content \<and>
           cells = map (\<lambda>k. csv_cell py (dict_get kvs k)) required \<and>
           content = file_text fs name @ (if fs name = None then writerow headers else []) @
                  writerow (isoformat now # cells) \<and>
           csv_read (writerow (isoformat now # cells)) = [isoformat now # cells] \<and>
           (fs name = None \<longrightarrow> csv_read content = [headers, isoformat now # cells]) \<and>
           (\<forall>rows. list_all (\<lambda>row. row \<noteq> [] \<and> hd row \<noteq> []) rows \<and>
                   fs name = Some (concat (map writerow rows)) \<longrightarrow>
                   csv_read content = rows @ [isoformat now # cells]) \<and>
           parse_iso (isoformat now) = Some now \<and>
           required = [U ''name'', U ''email'', U ''roll'', U ''birthdate'', U ''registration'',
                       U ''stream'', U ''session'', U ''year'', U ''course''] \<and>
           length cells = 9 \<and>
           (\<forall>s. csv_cell py (JStr s) = s) \<and>
           (\<forall>i. csv_cell py (JInt i) = str_int i) \<and>
           (\<forall>b. csv_cell py (JBool b) = (if b then U ''True'' else U ''False''))"
proof -
  let ?cells = "map (\<lambda>k. csv_cell py (dict_get kvs k)) required"
  let ?row = "isoformat now # ?cells"
  from save_profile_success[OF assms(1,2)] obtain name where
    r: "r = success_response name" and
    fs': "fs' = fs(name \<mapsto> file_text fs name @
                   (if fs name = None then writerow headers else []) @
                   writerow (data_row py now kvs))"
    by blast
  have row: "data_row py now kvs = ?row" by (rule data_row_cells_of)
  let ?doc = "file_text fs name @ (if fs name = None then writerow headers else []) @
                  writerow ?row"
  have t: "fs' name = Some ?doc" by (simp add: fs' row)
  have one: "csv_read (writerow ?row) = [?row]"
    using read_rows[of "[?row]" "[]"] by (simp add: isoformat_not_Nil csv_read_Nil)
  have new: "fs name = None \<longrightarrow> csv_read ?doc = [headers, ?row]"
    using read_rows[of "[headers, ?row]" "[]"]
    by (simp add: isoformat_not_Nil csv_read_Nil headers_cells file_text_def)
  have old: "\<forall>rows. list_all (\<lambda>row. row \<noteq> [] \<and> hd row \<noteq> []) rows \<and>
                   fs name = Some (concat (map writerow rows)) \<longrightarrow>
                   csv_read ?doc = rows @ [?row]"
  proof (intro allI impI)
    fix rows
    assume "list_all (\<lambda>row. row \<noteq> [] \<and> hd row \<noteq> []) rows \<and>
                   fs name = Some (concat (map writerow rows))"
    then show "csv_read ?doc = rows @ [?row]"
      using read_rows[of "rows @ [?row]" "[]"]
      by (simp add: isoformat_not_Nil csv_read_Nil file_text_def)
  qed
  have p: "parse_iso (isoformat now) = Some now" using assms(3) by (rule isoformat_parses)
  have q: "required = [U ''name'', U ''email'', U ''roll'', U ''birthdate'', U ''registration'',
                       U ''stream'', U ''session'', U ''year'', U ''course'']"
    by (simp add: required_def)
  have l: "length ?cells = 9" by (simp add: required_def)
  have c: "\<forall>s. csv_cell py (JStr s) = s" "\<forall>i. csv_cell py (JInt i) = str_int i"
    "\<forall>b. csv_cell py (JBool b) = (if b then U ''True'' else U ''False'')"
    by (simp_all add: csv_cell_def del: U_simps)
  show ?thesis
    by (rule exI[of _ name], rule exI[of _ ?doc], rule exI[of _ ?cells])
       (intro conjI r t refl one new old p q l c)
qed

subsection \<open>The sample submissions\<close>

lemma sample_texts:
  "map (dict_get (sample_fields st se)) required = map JStr (sample_values st se)"
  by (simp add: sample_fields_def sample_values_def required_def dict_get_def dict_lookup_def)

lemma sample_complete:
  "st \<noteq> [] \<Longrightarrow> se \<noteq> [] \<Longrightarrow> missing_fields (sample_fields st se) = []"
  by (simp add: sample_fields_def lookup_defs)

lemma sample_nonempty: "U ''CS'' \<noteq> []" "U ''C.S.'' \<noteq> []" "U ''2023-2026'' \<noteq> []"
  by simp_all

lemma sample_gets:
  "dict_get (sample_fields st se) (U ''stream'') = JStr st"
  "dict_get (sample_fields st se) (U ''session'') = JStr se"
  "dict_get (sample_fields st se) (U ''year'') = JStr (U ''2'')"
  by (simp_all add: sample_fields_def dict_get_def dict_lookup_def)

lemma sample_session_in_order: "\<not> session_out_of_order py (JStr (U ''2023-2026''))"
  by (simp add: session_out_of_order_def int_defs)

lemma sample_filenames:
  "make_filename py (U ''CS'') (U ''2'') (U ''2023-2026'') = sample_file"
  "make_filename py (U ''C.S.'') (U ''2'') (U ''2023-2026'') = sample_file"
  by (simp_all add: make_filename_def sanitize_stream_def session_filename_piece_def
        ordinal_of_def ORDINAL_def re_sub_not_def replace_char_def upper_def upper_char_def
        last_two_def Let_def char_class_defs sample_file_def)

lemma ascii_encodable: "list_all (\<lambda>c. c < 128) s \<Longrightarrow> utf8_encodable s"
  by (induction s) (simp_all add: utf8_encodable_def is_surrogate_def)

lemma sample_row_encodable:
  "utf8_encodable (writerow (isoformat sample_now # sample_values (U ''CS'') (U ''2023-2026'')))"
  "utf8_encodable (writerow (isoformat sample_later # sample_values (U ''C.S.'') (U ''2023-2026'')))"
  by (rule ascii_encodable;
      simp add: writerow_def sample_values_def quote_field_def needs_quote_def double_quotes_def
        isoformat_def pad2_def pad4_def pad6_def digit_at_def sample_now_def sample_later_def)+

lemma first_submission:
  "save_profile ascii_env sample_now None Map.empty
     (JObj (sample_fields (U ''CS'') (U ''2023-2026''))) =
   (Inr (success_response sample_file),
    [sample_file \<mapsto> writerow headers @
       writerow (isoformat sample_now # sample_values (U ''CS'') (U ''2023-2026''))])"
proof -
  let ?k = "sample_fields (U ''CS'') (U ''2023-2026'')"
  have row: "data_row ascii_env sample_now ?k
      = isoformat sample_now # sample_values (U ''CS'') (U ''2023-2026'')"
    by (rule data_row_texts[OF sample_texts])
  have "save_profile ascii_env sample_now None Map.empty (JObj ?k) =
    (Inr (success_response sample_file),
     Map.empty(sample_file \<mapsto> file_text Map.empty sample_file @
        (if Map.empty sample_file = None then writerow headers else []) @
        writerow (data_row ascii_env sample_now ?k)))"
    using save_profile_ok[where kvs = ?k and py = ascii_env and now = sample_now
        and fs = Map.empty and name = sample_file
        and st = "U ''CS''" and se = "U ''2023-2026''"]
    by (simp add: sample_nonempty sample_complete sample_gets sample_session_in_order row
          sample_row_encodable sample_filenames del: U_simps)
  then show ?thesis by (simp add: row file_text_def del: U_simps)
qed

lemma second_submission:
  "save_profile ascii_env sample_later None [sample_file \<mapsto> old]
     (JObj (sample_fields (U ''C.S.'') (U ''2023-2026''))) =
   (Inr (success_response sample_file),
    [sample_file \<mapsto> old @
       writerow (isoformat sample_later # sample_values (U ''C.S.'') (U ''2023-2026''))])"
proof -
  let ?k = "sample_fields (U ''C.S.'') (U ''2023-2026'')"
  let ?fs = "[sample_file \<mapsto> old]"
  have row: "data_row ascii_env sample_later ?k
      = isoformat sample_later # sample_values (U ''C.S.'') (U ''2023-2026'')"
    by (rule data_row_texts[OF sample_texts])
  have "save_profile ascii_env sample_later None ?fs (JObj ?k) =
    (Inr (success_response sample_file),
     ?fs(sample_file \<mapsto> file_text ?fs sample_file @
        (if ?fs sample_file = None then writerow headers else []) @
        writerow (data_row ascii_env sample_later ?k)))"
    using save_profile_ok[where kvs = ?k and py = ascii_env and now = sample_later
        and fs = ?fs and name = sample_file
        and st = "U ''C.S.''" and se = "U ''2023-2026''"]
    by (simp add: sample_nonempty sample_complete sample_gets sample_session_in_order row
          sample_row_encodable sample_filenames del: U_simps)
  then show ?thesis by (simp add: row file_text_def del: U_simps)
qed

text \<open>
  Claim C10.  The raw streams \<open>CS\<close> and \<open>C.S.\<close> differ and derive the same filename for
  every year and session; two submissions that differ in this way end up as two rows of
  one record file.
\<close>

theorem filename_not_injective:
  "U ''CS'' \<noteq> U ''C.S.'' \<and>
   make_filename py (U ''CS'') year session = make_filename py (U ''C.S.'') year session \<and>
   make_filename py (U ''CS'') (U ''1'') (U ''2023-2026'') = U ''CS_1st_2023-26.csv'' \<and>
   make_filename py (U ''C.S.'') (U ''1'') (U ''2023-2026'') = U ''CS_1st_2023-26.csv'' \<and>
   run ascii_env Map.empty
     [(sample_now, None, JObj (sample_fields (U ''CS'') (U ''2023-2026''))),
      (sample_later, None, JObj (sample_fields (U ''C.S.'') (U ''2023-2026'')))] sample_file =
     Some (writerow headers @
           writerow (isoformat sample_now # sample_values (U ''CS'') (U ''2023-2026'')) @
           writerow (isoformat sample_later # sample_values (U ''C.S.'') (U ''2023-2026'')))"
proof -
  have s: "sanitize_stream (U ''CS'') = U ''CS''" "sanitize_stream (U ''C.S.'') = U ''CS''"
    by (simp_all add: sanitize_stream_def Let_def re_sub_not_def replace_char_def upper_def
          upper_char_def char_class_defs)
  have 3: "session_filename_piece py (U ''2023-2026'') = U ''2023-26''"
    by (simp add: session_filename_piece_def Let_def is_ascii_digit_def last_two_def)
  have 4: "ordinal_of (U ''1'') = U ''1st''"
    by (simp add: ordinal_of_def ORDINAL_def)
  have r: "run ascii_env Map.empty
     [(sample_now, None, JObj (sample_fields (U ''CS'') (U ''2023-2026''))),
      (sample_later, None, JObj (sample_fields (U ''C.S.'') (U ''2023-2026'')))] sample_file =
     Some (writerow headers @
           writerow (isoformat sample_now # sample_values (U ''CS'') (U ''2023-2026'')) @
           writerow (isoformat sample_later # sample_values (U ''C.S.'') (U ''2023-2026'')))"
    by (simp add: first_submission second_submission del: U_simps)
  have f: "U ''CS'' \<noteq> U ''C.S.'' \<and>
   make_filename py (U ''CS'') year session = make_filename py (U ''C.S.'') year session \<and>
   make_filename py (U ''CS'') (U ''1'') (U ''2023-2026'') = U ''CS_1st_2023-26.csv'' \<and>
   make_filename py (U ''C.S.'') (U ''1'') (U ''2023-2026'') = U ''CS_1st_2023-26.csv''"
    unfolding make_filename_parts s 3 4 by (simp add: char_class_defs)
  from f r show ?thesis by (simp only: simp_thms)
qed

text \<open>
  Two submissions with the raw streams \<open>CS\<close> and \<open>C.S.\<close> on an empty directory: both
  succeed, and the one file they share is the header line followed by their two rows,
  and reads back as the header and the two rows.
\<close>

theorem header_once_witness:
  "save_profile ascii_env sample_now None Map.empty
     (JObj (sample_fields (U ''CS'') (U ''2023-2026''))) =
     (Inr (success_response sample_file),
      [sample_file \<mapsto> writerow headers @
         writerow (isoformat sample_now # sample_values (U ''CS'') (U ''2023-2026''))]) \<and>
   status_code (success_response sample_file) = 200 \<and>
   all_succeed ascii_env Map.empty
     [(sample_now, None, JObj (sample_fields (U ''CS'') (U ''2023-2026''))),
      (sample_later, None, JObj (sample_fields (U ''C.S.'') (U ''2023-2026'')))] \<and>
   run ascii_env Map.empty
     [(sample_now, None, JObj (sample_fields (U ''CS'') (U ''2023-2026''))),
      (sample_later, None, JObj (sample_fields (U ''C.S.'') (U ''2023-2026'')))] sample_file =
     Some (U ''timestamp,name,email,roll,birthdate,registration,stream,session,year,course'' @ [13, 10] @
           writerow (isoformat sample_now # sample_values (U ''CS'') (U ''2023-2026'')) @
           writerow (isoformat sample_later # sample_values (U ''C.S.'') (U ''2023-2026''))) \<and>
   csv_read (U ''timestamp,name,email,roll,birthdate,registration,stream,session,year,course'' @ [13, 10] @
           writerow (isoformat sample_now # sample_values (U ''CS'') (U ''2023-2026'')) @
           writerow (isoformat sample_later # sample_values (U ''C.S.'') (U ''2023-2026''))) =
     [headers, isoformat sample_now # sample_values (U ''CS'') (U ''2023-2026''),
      isoformat sample_later # sample_values (U ''C.S.'') (U ''2023-2026'')] \<and>
   (\<exists>rows content. rows \<noteq> [] \<and> headers \<notin> set rows \<and>
      run ascii_env Map.empty
        [(sample_now, None, JObj (sample_fields (U ''CS'') (U ''2023-2026''))),
      (sample_later, None, JObj (sample_fields (U ''C.S.'') (U ''2023-2026'')))] sample_file = Some content \<and>
      content =
        U ''timestamp,name,email,roll,birthdate,registration,stream,session,year,course'' @
        [13, 10] @ concat (map writerow rows) \<and>
      csv_read content = headers # rows) \<and>
   (\<exists>more. run ascii_env [sample_file \<mapsto> writerow headers]
        [(sample_later, None, JObj (sample_fields (U ''C.S.'') (U ''2023-2026'')))] sample_file =
        Some (writerow headers @ more))"
proof -
  let ?A = "JObj (sample_fields (U ''CS'') (U ''2023-2026''))"
  let ?B = "JObj (sample_fields (U ''C.S.'') (U ''2023-2026''))"
  let ?reqs = "[(sample_now, None, ?A), (sample_later, None, ?B)]"
  let ?rowA = "isoformat sample_now # sample_values (U ''CS'') (U ''2023-2026'')"
  let ?rowB = "isoformat sample_later # sample_values (U ''C.S.'') (U ''2023-2026'')"
  note T = header_once[where py = ascii_env and now = sample_now and fault = None
      and fs = Map.empty and parsed = ?A and r = "success_response sample_file"
      and fs' = "[sample_file \<mapsto> writerow headers @ writerow ?rowA]"
      and name = sample_file and reqs = ?reqs
      and st = "[sample_file \<mapsto> writerow headers]" and f = sample_file
      and old = "writerow headers" and rs = "[(sample_later, None, ?B)]"]
  have ok: "status_code (success_response sample_file) = 200"
    by (simp add: success_response_def)
  have all: "all_succeed ascii_env Map.empty ?reqs"
    by (simp add: first_submission second_submission is_success_def ok del: U_simps)
  have h: "writerow headers = U ''timestamp,name,email,roll,birthdate,registration,stream,session,year,course'' @ [13, 10]"
    by (rule T[THEN conjunct2, THEN conjunct1])
  have r: "run ascii_env Map.empty
     [(sample_now, None, JObj (sample_fields (U ''CS'') (U ''2023-2026''))),
      (sample_later, None, JObj (sample_fields (U ''C.S.'') (U ''2023-2026'')))] sample_file =
     Some (U ''timestamp,name,email,roll,birthdate,registration,stream,session,year,course'' @ [13, 10] @
           writerow (isoformat sample_now # sample_values (U ''CS'') (U ''2023-2026'')) @
           writerow (isoformat sample_later # sample_values (U ''C.S.'') (U ''2023-2026'')))"
    by (simp add: first_submission second_submission h del: U_simps)
  have c: "csv_read (U ''timestamp,name,email,roll,birthdate,registration,stream,session,year,course'' @ [13, 10] @
           writerow (isoformat sample_now # sample_values (U ''CS'') (U ''2023-2026'')) @
           writerow (isoformat sample_later # sample_values (U ''C.S.'') (U ''2023-2026''))) =
     [headers, isoformat sample_now # sample_values (U ''CS'') (U ''2023-2026''),
      isoformat sample_later # sample_values (U ''C.S.'') (U ''2023-2026'')]"
    using read_rows[of "[headers, ?rowA, ?rowB]" "[]"]
    by (simp add: h headers_cells isoformat_not_Nil csv_read_Nil del: U_simps)
  have "run ascii_env Map.empty ?reqs sample_file = None \<or>
   (\<exists>rows content. rows \<noteq> [] \<and> headers \<notin> set rows \<and>
      run ascii_env Map.empty
        [(sample_now, None, JObj (sample_fields (U ''CS'') (U ''2023-2026''))),
      (sample_later, None, JObj (sample_fields (U ''C.S.'') (U ''2023-2026'')))] sample_file = Some content \<and>
      content =
        U ''timestamp,name,email,roll,birthdate,registration,stream,session,year,course'' @
        [13, 10] @ concat (map writerow rows) \<and>
      csv_read content = headers # rows)"
    by (rule mp[OF T[THEN conjunct2, THEN conjunct2, THEN conjunct1]])
       (rule conjI, simp, rule all)
  then have e: "(\<exists>rows content. rows \<noteq> [] \<and> headers \<notin> set rows \<and>
      run ascii_env Map.empty
        [(sample_now, None, JObj (sample_fields (U ''CS'') (U ''2023-2026''))),
      (sample_later, None, JObj (sample_fields (U ''C.S.'') (U ''2023-2026'')))] sample_file = Some content \<and>
      content =
        U ''timestamp,name,email,roll,birthdate,registration,stream,session,year,course'' @
        [13, 10] @ concat (map writerow rows) \<and>
      csv_read content = headers # rows)"
  proof (elim disjE)
    assume "run ascii_env Map.empty ?reqs sample_file = None"
    with r show ?thesis by simp
  next
    assume "(\<exists>rows content. rows \<noteq> [] \<and> headers \<notin> set rows \<and>
      run ascii_env Map.empty
        [(sample_now, None, JObj (sample_fields (U ''CS'') (U ''2023-2026''))),
      (sample_later, None, JObj (sample_fields (U ''C.S.'') (U ''2023-2026'')))] sample_file = Some content \<and>
      content =
        U ''timestamp,name,email,roll,birthdate,registration,stream,session,year,course'' @
        [13, 10] @ concat (map writerow rows) \<and>
      csv_read content = headers # rows)"
    then show ?thesis .
  qed
  have x: "(\<exists>more. run ascii_env [sample_file \<mapsto> writerow headers]
        [(sample_later, None, JObj (sample_fields (U ''C.S.'') (U ''2023-2026'')))] sample_file =
        Some (writerow headers @ more))"
    by (rule mp[OF T[THEN conjunct2, THEN conjunct2, THEN conjunct2]]) simp
  show ?thesis
    by (intro conjI first_submission ok all r c e x)
qed

lemma sample_now_valid: "valid_datetime sample_now"
  by (simp add: valid_datetime_def sample_now_def days_in_month_def)

lemma sample_cells:
  "map (\<lambda>k. csv_cell py (dict_get (sample_fields st se) k)) required = sample_values st se"
  by (simp add: sample_fields_def sample_values_def required_def dict_get_def dict_lookup_def
        csv_cell_def)

text \<open>
  The first sample submission read back; its registration field holds a comma and
  double quotes.
\<close>

theorem row_round_trip_witness:
  "save_profile ascii_env sample_now None Map.empty
     (JObj (sample_fields (U ''CS'') (U ''2023-2026''))) =
     (Inr (success_response sample_file),
      [sample_file \<mapsto> writerow headers @
         writerow (isoformat sample_now # sample_values (U ''CS'') (U ''2023-2026''))]) \<and>
   status_code (success_response sample_file) = 200 \<and>
   valid_datetime sample_now \<and>
   map (\<lambda>k. csv_cell ascii_env (dict_get (sample_fields (U ''CS'') (U ''2023-2026'')) k)) required =
     sample_values (U ''CS'') (U ''2023-2026'') \<and>
   csv_read (writerow headers @
             writerow (isoformat sample_now # sample_values (U ''CS'') (U ''2023-2026''))) =
     [headers, isoformat sample_now # sample_values (U ''CS'') (U ''2023-2026'')] \<and>
   parse_iso (isoformat sample_now) = Some sample_now"
proof -
  let ?k = "sample_fields (U ''CS'') (U ''2023-2026'')"
  let ?row = "isoformat sample_now # sample_values (U ''CS'') (U ''2023-2026'')"
  have ok: "status_code (success_response sample_file) = 200"
    by (simp add: success_response_def)
  from row_round_trip[OF first_submission ok sample_now_valid]
  obtain name content cells where
    n: "success_response sample_file = success_response name" and
    t: "[sample_file \<mapsto> writerow headers @ writerow ?row] name = Some content" and
    e: "cells = map (\<lambda>k. csv_cell ascii_env (dict_get ?k k)) required" and
    c: "Map.empty name = (None :: pystr option) \<longrightarrow>
          csv_read content = [headers, isoformat sample_now # cells]" and
    p: "parse_iso (isoformat sample_now) = Some sample_now"
    by blast
  from n have "name = sample_file" by (simp add: success_response_def)
  with t c e have "csv_read (writerow headers @ writerow ?row) = [headers, ?row]"
    by (simp add: sample_cells del: U_simps)
  with first_submission ok sample_now_valid sample_cells[of ascii_env] p show ?thesis
    by (intro conjI)
qed

subsection \<open>Where the stated claims fail\<close>

lemma multiline_cells:
  "data_row ascii_env sample_now multiline_fields =
     isoformat sample_now # multiline_values"
  by (simp add: data_row_def multiline_fields_def multiline_values_def sample_fields_def
        sample_values_def dict_get_def dict_lookup_def csv_cell_def)

lemma multiline_row_encodable:
  "utf8_encodable (writerow (isoformat sample_now # multiline_values))"
  by (rule ascii_encodable)
     (simp add: writerow_def multiline_values_def multiline_name_def sample_values_def
        quote_field_def needs_quote_def double_quotes_def header_line_def isoformat_def
        pad2_def pad4_def pad6_def digit_at_def sample_now_def)

lemma multiline_submission:
  "save_profile ascii_env sample_now None Map.empty (JObj multiline_fields) =
   (Inr (success_response sample_file),
    [sample_file \<mapsto> writerow headers @
       writerow (isoformat sample_now # multiline_values)])"
proof -
  have m: "missing_fields multiline_fields = []"
    by (simp add: multiline_fields_def multiline_name_def sample_fields_def lookup_defs)
  have g: "dict_get multiline_fields (U ''stream'') = JStr (U ''CS'')"
    "dict_get multiline_fields (U ''session'') = JStr (U ''2023-2026'')"
    "dict_get multiline_fields (U ''year'') = JStr (U ''2'')"
    by (simp_all add: multiline_fields_def sample_fields_def dict_get_def dict_lookup_def)
  show ?thesis
    using save_profile_ok[where kvs = multiline_fields and py = ascii_env and now = sample_now
        and fs = Map.empty and name = sample_file
        and st = "U ''CS''" and se = "U ''2023-2026''"]
    by (simp add: m g sample_session_in_order multiline_cells multiline_row_encodable
          sample_filenames file_text_def del: U_simps)
qed

text \<open>
  Claim C2 as the specification states it fails when a field holds line breaks: the
  submission below succeeds on an empty directory, and the file it creates has two
  physical lines equal to the header line, the first line and a line inside the quoted
  name.
\<close>

theorem header_once_counterexample:
  "save_profile ascii_env sample_now None Map.empty (JObj multiline_fields) =
     (Inr (success_response sample_file),
      [sample_file \<mapsto> writerow headers @
         writerow (isoformat sample_now # multiline_values)]) \<and>
   count_list
     (text_lines (writerow headers @
        writerow (isoformat sample_now # multiline_values)))
     header_line = 2"
proof -
  have "count_list
     (text_lines (writerow headers @
        writerow (isoformat sample_now # multiline_values)))
     header_line = 2"
    by (simp add: text_lines_def writerow_def headers_def multiline_values_def
          multiline_name_def sample_values_def quote_field_def needs_quote_def
          double_quotes_def header_line_def isoformat_def pad2_def pad4_def pad6_def
          digit_at_def sample_now_def Let_def)
  with multiline_submission show ?thesis by (rule conjI)
qed

lemma mixed_cells:
  "data_row ascii_env sample_now mixed_fields = isoformat sample_now # mixed_values"
  by (simp add: data_row_def mixed_fields_def mixed_values_def dict_get_def dict_lookup_def
        csv_cell_def str_int_def str_nat.simps)

lemma mixed_row_encodable: "utf8_encodable (writerow (isoformat sample_now # mixed_values))"
  by (rule ascii_encodable)
     (simp add: writerow_def mixed_values_def quote_field_def needs_quote_def double_quotes_def
        isoformat_def pad2_def pad4_def pad6_def digit_at_def sample_now_def)

lemma mixed_submission:
  "save_profile ascii_env sample_now None Map.empty (JObj mixed_fields) =
   (Inr (success_response sample_file),
    [sample_file \<mapsto> writerow headers @ writerow (isoformat sample_now # mixed_values)])"
proof -
  have m: "missing_fields mixed_fields = []"
    by (simp add: mixed_fields_def lookup_defs)
  have g: "dict_get mixed_fields (U ''stream'') = JStr (U ''CS'')"
    "dict_get mixed_fields (U ''session'') = JStr (U ''2023-2026'')"
    "py_str ascii_env (dict_get mixed_fields (U ''year'')) = U ''2''"
    by (simp_all add: mixed_fields_def dict_get_def dict_lookup_def str_int_def str_nat.simps)
  show ?thesis
    using save_profile_ok[where kvs = mixed_fields and py = ascii_env and now = sample_now
        and fs = Map.empty and name = sample_file
        and st = "U ''CS''" and se = "U ''2023-2026''"]
    by (simp add: m g sample_session_in_order mixed_cells mixed_row_encodable
          sample_filenames file_text_def del: U_simps)
qed

text \<open>
  Claim C8 as the specification states it fails on a value that is not a text: the
  payload below, with the name \<open>true\<close>, the roll 17 and the year 2, is accepted and
  written; read back, its name is the text \<open>True\<close>, and the nine cells are not the nine
  submitted values.
\<close>

theorem row_round_trip_counterexample:
  "save_profile ascii_env sample_now None Map.empty (JObj mixed_fields) =
     (Inr (success_response sample_file),
      [sample_file \<mapsto> writerow headers @ writerow (isoformat sample_now # mixed_values)]) \<and>
   csv_read (writerow headers @ writerow (isoformat sample_now # mixed_values)) =
     [headers, isoformat sample_now # mixed_values] \<and>
   dict_get mixed_fields (U ''name'') = JBool True \<and>
   mixed_values ! 0 = U ''True'' \<and>
   JStr (mixed_values ! 0) \<noteq> dict_get mixed_fields (U ''name'') \<and>
   map JStr mixed_values \<noteq> map (dict_get mixed_fields) required"
proof -
  have c: "csv_read (writerow headers @ writerow (isoformat sample_now # mixed_values)) =
     [headers, isoformat sample_now # mixed_values]"
    using read_rows[of "[headers, isoformat sample_now # mixed_values]" "[]"]
    by (simp add: headers_cells isoformat_not_Nil csv_read_Nil del: U_simps)
  have n: "dict_get mixed_fields (U ''name'') = JBool True"
    by (simp add: mixed_fields_def dict_get_def dict_lookup_def)
  have v: "mixed_values ! 0 = U ''True''"
    by (simp add: mixed_values_def)
  have d: "JStr (mixed_values ! 0) \<noteq> dict_get mixed_fields (U ''name'')"
    unfolding n by simp
  have e: "map JStr mixed_values \<noteq> map (dict_get mixed_fields) required"
    by (simp add: mixed_values_def required_def n del: U_simps)
  show ?thesis
    by (intro conjI mixed_submission c n v d e)
qed

end
